theory Spec2Isabelle
  imports Main "HOL-Library.AList"
begin

text \<open>
  The Slack service of ASlack-Stream (\<open>src/services/slack/slack.service.ts\<close>): the
  reaction groups of a message, the timeline of displayed messages with the handlers
  of the message events, the resolution of the target of a reaction, and the
  reconciliation of the connections with the configured tokens. Objects are records,
  methods are functions from the object (or the service) before the call to the one
  after it, and what a method reads of the classes declared in other files is a field
  or a parameter.
\<close>

section \<open>Reaction groups (class DisplaySlackReactionInfo)\<close>

text \<open>
  One reaction group of one timeline entry: the raw emoji code, its rendered form (the
  key groups are looked up by) and the users who applied it, in the order of the array
  \<open>users\<close>. The back reference \<open>target\<close> to the owning entry is only read by the
  getters \<open>includeMine\<close> and \<open>userNames\<close> and is not part of the model.
\<close>

record DisplaySlackReactionInfo =
  rawReaction :: string
  reaction :: string
  users :: "string list"
  showReactedUsers :: bool

text \<open>\<open>removeUser\<close>: \<open>this.users = this.users.filter(u => u !== user)\<close>.\<close>

definition removeUser :: "DisplaySlackReactionInfo \<Rightarrow> string \<Rightarrow> DisplaySlackReactionInfo" where
  "removeUser this user = this\<lparr>users := filter (\<lambda>u. u \<noteq> user) (users this)\<rparr>"

text \<open>\<open>addUser\<close>: first \<open>removeUser\<close>, then \<open>this.users.push(user)\<close>.\<close>

definition addUser :: "DisplaySlackReactionInfo \<Rightarrow> string \<Rightarrow> DisplaySlackReactionInfo" where
  "addUser this user =
     (let r = removeUser this user in r\<lparr>users := users r @ [user]\<rparr>)"

text \<open>The getter \<open>count\<close>: \<open>this.users.length\<close>.\<close>

definition count :: "DisplaySlackReactionInfo \<Rightarrow> nat" where
  "count this = length (users this)"

section \<open>Reaction events\<close>

text \<open>
  The item a reaction event points at. The source switches on the string \<open>item.type\<close>
  and casts to one of three target types; every other tag takes the \<open>default\<close> branch,
  so the tag is kept for it.
\<close>

datatype ReactionItem =
    MessageReactionTarget string
  | FileReactionTarget string
  | FileCommentReactionTarget string string
  | OtherReactionTarget string

text \<open>
  The payload \<open>info.reaction\<close> of a SlackReactionAdded or SlackReactionRemoved event:
  \<open>reaction.reaction\<close> (the raw emoji code), \<open>reaction.user\<close> and \<open>reaction.item\<close>.
\<close>

record SlackReaction =
  ev_reaction :: string
  ev_user :: string
  ev_item :: ReactionItem

section \<open>Messages as the service reads them\<close>

text \<open>
  The message types (slack.types, slack-client) are declared outside this source file.
  The records hold the fields the service reads or writes, with the types their use
  shows: a field the code tests for presence before use is an \<open>option\<close>
  (\<open>None\<close> for \<open>undefined\<close> or \<open>null\<close>). An attachment is never inspected.
\<close>

datatype Attachment = Attachment string

record SlackFile =
  id_f :: string
  mimetype :: string
  thumb_480 :: "string option"
  thumb_360 :: "string option"
  thumb_160 :: "string option"
  thumb_80 :: "string option"
  thumb_64 :: "string option"

record SlackComment =
  id_c :: string

text \<open>\<open>rawMessage.message\<close> of a \<open>message_changed\<close> event: the message as edited.\<close>

record EditedMessage =
  ts_e :: string
  text_e :: string
  attachments_e :: "Attachment list option"

record RawMessage =
  subtype :: "string option"
  ts :: string
  channel :: string
  deleted_ts :: "string option"
  files :: "SlackFile list option"
  comment :: "SlackComment option"
  attachments :: "Attachment list option"
  message_r :: "EditedMessage option"

text \<open>What \<open>message.message\<close> holds; the service reads its \<open>files\<close> only.\<close>

record MessageBody =
  files_b :: "SlackFile list option"

text \<open>
  Class SlackMessage: \<open>text\<close>, \<open>rawMessage\<close>, \<open>subType\<close>, \<open>message\<close>, \<open>channelID\<close>
  and \<open>ts\<close> as the service reads them. How the class relates them (a getter over the
  raw message or a field of its own) is not visible here, so each is a field.
\<close>

record SlackMessage =
  text_m :: string
  rawMessage :: RawMessage
  subType :: "string option"
  message_m :: "MessageBody option"
  channelID :: string
  ts_m :: string

section \<open>Timeline entries (class DisplaySlackMessageInfo)\<close>

text \<open>
  \<open>oid\<close> is the identity of the object (the service keeps references to entries in
  \<open>infos\<close> and in the closure of a thumbnail fetch under way). The two parsers are
  objects of classes declared elsewhere and are not fields of the model.
\<close>

record DisplaySlackMessageInfo =
  oid :: nat
  message :: SlackMessage
  edited :: bool
  image_i :: "string option"
  reactions :: "DisplaySlackReactionInfo list"

text \<open>
  JavaScript's \<open>Array.prototype.find\<close> is \<^const>\<open>List.find\<close>: the first element that
  satisfies the predicate, or \<open>undefined\<close> (\<open>None\<close>). The element found is an object
  of the array, and a method called on it changes it where it stands: in the model,
  the first element satisfying the predicate is replaced.
\<close>

primrec update_first :: "('a \<Rightarrow> bool) \<Rightarrow> ('a \<Rightarrow> 'a) \<Rightarrow> 'a list \<Rightarrow> 'a list" where
  "update_first P f [] = []"
| "update_first P f (x # xs) = (if P x then f x # xs else x # update_first P f xs)"

text \<open>
  The string handed to the entry's parser: \<open>`:${info.reaction.reaction}::notitle:`\<close>.
\<close>

definition reaction_source :: "SlackReaction \<Rightarrow> string" where
  "reaction_source info = '':'' @ ev_reaction info @ ''::notitle:''"

text \<open>
  The parser (class ComposedParser, declared elsewhere) is a parameter of
  \<open>addReaction\<close> and \<open>removeReaction\<close>: \<open>parse\<close> is what
  \<open>this.parser.parse(_, this.message.dataStore)\<close> returns at the time of the call.
\<close>

definition addReaction ::
  "(string \<Rightarrow> string) \<Rightarrow> DisplaySlackMessageInfo \<Rightarrow> SlackReaction \<Rightarrow> DisplaySlackMessageInfo" where
  "addReaction parse this info =
     (let key = parse (reaction_source info);
          user = ev_user info
      in case find (\<lambda>r. reaction r = key) (reactions this) of
           Some target \<Rightarrow>
             this\<lparr>reactions :=
               update_first (\<lambda>r. reaction r = key) (\<lambda>r. addUser r user) (reactions this)\<rparr>
         | None \<Rightarrow>
             this\<lparr>reactions := reactions this @
               [\<lparr>rawReaction = ev_reaction info, reaction = key,
                 users = [user], showReactedUsers = False\<rparr>]\<rparr>)"

definition removeReaction ::
  "(string \<Rightarrow> string) \<Rightarrow> DisplaySlackMessageInfo \<Rightarrow> SlackReaction \<Rightarrow> DisplaySlackMessageInfo" where
  "removeReaction parse this info =
     (let key = parse (reaction_source info)
      in case find (\<lambda>r. reaction r = key) (reactions this) of
           Some target \<Rightarrow>
             (let target' = removeUser target (ev_user info);
                  this' = this\<lparr>reactions :=
                            update_first (\<lambda>r. reaction r = key)
                              (\<lambda>r. removeUser r (ev_user info)) (reactions this)\<rparr>
              in if count target' = 0
                 then this'\<lparr>reactions := filter (\<lambda>r. reaction r \<noteq> key) (reactions this')\<rparr>
                 else this')
         | None \<Rightarrow> this)"

section \<open>Faults\<close>

text \<open>
  Reading a property of \<open>undefined\<close> throws a TypeError; it is the only exception
  the service can raise by itself. A synchronous method ends \<open>Done\<close> or \<open>Failed\<close>; an
  \<open>async\<close> method ends \<open>Done\<close> (its promise resolves), \<open>Failed\<close> (it rejects) or is
  \<open>Suspended\<close> at the one \<open>await\<close> that waits for the outside: the thumbnail fetch
  \<open>client.getImage(ref)\<close> made for the entry \<open>oid\<close>.
\<close>

datatype error = TypeError

datatype completion = Done | Failed error | Suspended string nat

text \<open>
  \<open>find\<close> with a predicate that may throw: the predicate runs on the elements in
  order until it holds, and a throw ends the search.
\<close>

fun find_e :: "('a \<Rightarrow> error + bool) \<Rightarrow> 'a list \<Rightarrow> error + 'a option" where
  "find_e P [] = Inr None"
| "find_e P (x # xs) =
     (case P x of
        Inl e \<Rightarrow> Inl e
      | Inr b \<Rightarrow> if b then Inr (Some x) else find_e P xs)"

section \<open>The reaction target (findReactionTarget)\<close>

text \<open>
  \<open>m.message.rawMessage.files && m.message.rawMessage.files[0].id === file\<close>: an
  absent \<open>files\<close> is falsy, an empty array is truthy and its element 0 is
  \<open>undefined\<close>, whose \<open>id\<close> cannot be read.
\<close>

definition first_file_is :: "string \<Rightarrow> DisplaySlackMessageInfo \<Rightarrow> error + bool" where
  "first_file_is file m =
     (case files (rawMessage (message m)) of
        None \<Rightarrow> Inr False
      | Some [] \<Rightarrow> Inl TypeError
      | Some (f # _) \<Rightarrow> Inr (id_f f = file))"

text \<open>The predicate of the \<open>file\<close> case and of the second search of \<open>file_comment\<close>.\<close>

definition is_file_share :: "string \<Rightarrow> DisplaySlackMessageInfo \<Rightarrow> error + bool" where
  "is_file_share file m =
     (if subType (message m) = Some ''file_share'' then first_file_is file m else Inr False)"

text \<open>The predicate of the first search of the \<open>file_comment\<close> case.\<close>

definition is_file_comment :: "string \<Rightarrow> string \<Rightarrow> DisplaySlackMessageInfo \<Rightarrow> error + bool" where
  "is_file_comment file file_comment m =
     (if subType (message m) = Some ''file_comment''
      then (case first_file_is file m of
              Inl e \<Rightarrow> Inl e
            | Inr b \<Rightarrow>
                if b
                then (case comment (rawMessage (message m)) of
                        None \<Rightarrow> Inr False
                      | Some c \<Rightarrow> Inr (id_c c = file_comment))
                else Inr False)
      else Inr False)"

definition findReactionTarget ::
  "DisplaySlackMessageInfo list \<Rightarrow> ReactionItem \<Rightarrow> error + DisplaySlackMessageInfo option" where
  "findReactionTarget infos item =
     (case item of
        MessageReactionTarget target_ts \<Rightarrow>
          Inr (find (\<lambda>m. ts (rawMessage (message m)) = target_ts) infos)
      | FileReactionTarget file \<Rightarrow> find_e (is_file_share file) infos
      | FileCommentReactionTarget file file_comment \<Rightarrow>
          (case find_e (is_file_comment file file_comment) infos of
             Inl e \<Rightarrow> Inl e
           | Inr (Some m) \<Rightarrow> Inr (Some m)
           | Inr None \<Rightarrow> find_e (is_file_share file) infos)
      | OtherReactionTarget _ \<Rightarrow> Inr None)"

section \<open>The service (class SlackService)\<close>

text \<open>
  A connection (SlackClient) is an object of a class declared elsewhere: \<open>cid\<close> is its
  identity, \<open>token\<close> the field \<open>refresh\<close> reads. The calls the service makes on
  connections are recorded in the order they are made.
\<close>

record SlackClient =
  cid :: nat
  token :: string

datatype call = Start nat | Stop nat | MarkRead nat string string

text \<open>
  \<open>onChange\<close> counts the notifications \<open>this._onChange.next(this)\<close> sent so far,
  \<open>subscription\<close> lists the connections whose five event streams the current
  Subscription holds (one element for each bundle), \<open>next_oid\<close> is the identity the
  next object created by \<open>new\<close> receives. Every entry of \<open>infos\<close> holds a message object
  of its own (the connection hands a new SlackMessage to the handler for each event).
  \<open>proto_marked\<close> is the one thing the service can leave outside itself: whether
  \<open>Object.prototype\<close> has the property \<open>1\<close>, which a round of \<open>refresh\<close> for the token
  \<open>__proto__\<close> writes; it is kept with the state of the service.
\<close>

record SlackService =
  clients :: "SlackClient list"
  infos :: "DisplaySlackMessageInfo list"
  onChange :: nat
  subscription :: "nat list"
  next_oid :: nat
  calls :: "call list"
  proto_marked :: bool

definition notify :: "SlackService \<Rightarrow> SlackService" where
  "notify s = s\<lparr>onChange := Suc (onChange s)\<rparr>"

subsection \<open>Deleted, changed and replied messages\<close>

definition removeDeletedMessage :: "SlackService \<Rightarrow> SlackMessage \<Rightarrow> completion \<times> SlackService" where
  "removeDeletedMessage s msg =
     (Done, notify (s\<lparr>infos :=
        filter (\<lambda>m. deleted_ts (rawMessage msg) \<noteq> Some (ts (rawMessage (message m)))) (infos s)\<rparr>))"

text \<open>
  The predicate of \<open>changeMessage\<close> reads \<open>message.rawMessage.message.ts\<close> first, so an
  event without an embedded message throws on the first entry the search looks at.
\<close>

definition is_edited :: "SlackMessage \<Rightarrow> DisplaySlackMessageInfo \<Rightarrow> error + bool" where
  "is_edited msg m =
     (case message_r (rawMessage msg) of
        None \<Rightarrow> Inl TypeError
      | Some e \<Rightarrow>
          Inr (ts (rawMessage (message m)) = ts_e e \<and>
               channel (rawMessage (message m)) = channel (rawMessage msg)))"

text \<open>
  The three assignments made to the entry found. The entry found is the first one the
  predicate holds for, and the predicate can only hold when the event has an embedded
  message; the inner \<open>None\<close> case of \<open>changeMessage\<close> below is there for totality.
\<close>

definition edit :: "EditedMessage \<Rightarrow> DisplaySlackMessageInfo \<Rightarrow> DisplaySlackMessageInfo" where
  "edit e m =
     m\<lparr>edited := True,
       message := (message m)\<lparr>text_m := text_e e,
                    rawMessage := (rawMessage (message m))\<lparr>attachments := attachments_e e\<rparr>\<rparr>\<rparr>"

definition changeMessage :: "SlackService \<Rightarrow> SlackMessage \<Rightarrow> completion \<times> SlackService" where
  "changeMessage s msg =
     (case find_e (is_edited msg) (infos s) of
        Inl err \<Rightarrow> (Failed err, s)
      | Inr None \<Rightarrow> (Done, s)
      | Inr (Some found) \<Rightarrow>
          (case message_r (rawMessage msg) of
             None \<Rightarrow> (Failed TypeError, s)
           | Some e \<Rightarrow>
               (Done, notify (s\<lparr>infos :=
                  update_first (\<lambda>m. is_edited msg m = Inr True) (edit e) (infos s)\<rparr>))))"

definition replyMessage :: "SlackService \<Rightarrow> SlackMessage \<Rightarrow> completion \<times> SlackService" where
  "replyMessage s msg = (Done, s)"

subsection \<open>New messages\<close>

text \<open>\<open>haystack.indexOf(needle) !== -1\<close>.\<close>

primrec has_substring :: "string \<Rightarrow> string \<Rightarrow> bool" where
  "has_substring needle [] = (needle = [])"
| "has_substring needle (c # cs) = (take (length needle) (c # cs) = needle \<or> has_substring needle cs)"

text \<open>A thumbnail field is used when it is truthy: present and not the empty string.\<close>

fun first_truthy :: "string option list \<Rightarrow> string" where
  "first_truthy [] = ''''"
| "first_truthy (None # rest) = first_truthy rest"
| "first_truthy (Some v # rest) = (if v = '''' then first_truthy rest else v)"

definition getMaximumThumbnail :: "SlackMessage \<Rightarrow> error + string" where
  "getMaximumThumbnail msg =
     (case files (rawMessage msg) of
        None \<Rightarrow> Inl TypeError
      | Some [] \<Rightarrow> Inl TypeError
      | Some (file # _) \<Rightarrow>
          Inr (first_truthy [thumb_480 file, thumb_360 file, thumb_160 file,
                             thumb_80 file, thumb_64 file]))"

text \<open>The entry \<open>new DisplaySlackMessageInfo(message, parser, client.attachmentTextParser)\<close>.\<close>

definition new_info :: "nat \<Rightarrow> SlackMessage \<Rightarrow> DisplaySlackMessageInfo" where
  "new_info i msg = \<lparr>oid = i, message = msg, edited = False, image_i = None, reactions = []\<rparr>"

text \<open>The end of \<open>addMessage\<close>: \<open>client.markRead(message.channelID, message.ts)\<close> and a notification.\<close>

definition mark_and_notify :: "SlackService \<Rightarrow> SlackMessage \<Rightarrow> nat \<Rightarrow> SlackService" where
  "mark_and_notify s msg client =
     notify (s\<lparr>calls := calls s @ [MarkRead client (channelID msg) (ts_m msg)]\<rparr>)"

text \<open>
  \<open>addMessage\<close> up to its end or to the \<open>await\<close> of the thumbnail: the entry is put at
  the head of \<open>infos\<close> (\<open>unshift\<close>) before anything else is read.
\<close>

definition addMessage :: "SlackService \<Rightarrow> SlackMessage \<Rightarrow> nat \<Rightarrow> completion \<times> SlackService" where
  "addMessage s msg client =
     (case message_m msg of
        None \<Rightarrow> (Done, s)
      | Some body \<Rightarrow>
          (let info = new_info (next_oid s) msg;
               s1 = s\<lparr>infos := info # infos s, next_oid := Suc (next_oid s)\<rparr>
           in case files_b body of
                None \<Rightarrow> (Done, mark_and_notify s1 msg client)
              | Some [] \<Rightarrow> (Failed TypeError, s1)
              | Some (f # _) \<Rightarrow>
                  if has_substring ''image'' (mimetype f)
                  then (case getMaximumThumbnail msg of
                          Inl err \<Rightarrow> (Failed err, s1)
                        | Inr ref \<Rightarrow> (Suspended ref (oid info), s1))
                  else (Done, mark_and_notify s1 msg client)))"

text \<open>
  \<open>addMessage\<close> from the \<open>await\<close> on, when the fetch has given \<open>img\<close> (\<open>None\<close> when it
  failed and the \<open>catch\<close> returned \<open>undefined\<close>): the image is stored in the entry
  created before the \<open>await\<close>, wherever it now is.
\<close>

definition addMessage_resume ::
  "SlackService \<Rightarrow> nat \<Rightarrow> string option \<Rightarrow> SlackMessage \<Rightarrow> nat \<Rightarrow> SlackService" where
  "addMessage_resume s i img msg client =
     mark_and_notify
       (s\<lparr>infos := map (\<lambda>m. if oid m = i then m\<lparr>image_i := img\<rparr> else m) (infos s)\<rparr>)
       msg client"

subsection \<open>The dispatcher of message events\<close>

text \<open>
  What follows the \<open>await\<close> of a handler in \<open>onReceiveMessage\<close>: the last
  notification, when the handler has ended without a throw. The handlers change
  \<open>infos\<close> before their first \<open>await\<close>, and what they do after it (apart from storing a
  fetched image) is to notify and to mark a message read, so one event is one step
  of the model, with the end of a thumbnail fetch as a step of its own.
\<close>

fun then_notify :: "completion \<times> SlackService \<Rightarrow> completion \<times> SlackService" where
  "then_notify (Done, s) = (Done, notify s)"
| "then_notify (Failed err, s) = (Failed err, s)"
| "then_notify (Suspended ref i, s) = (Suspended ref i, s)"

definition onReceiveMessage :: "SlackService \<Rightarrow> SlackMessage \<Rightarrow> nat \<Rightarrow> completion \<times> SlackService" where
  "onReceiveMessage s msg client =
     (if subtype (rawMessage msg) = Some ''message_deleted''
        then then_notify (removeDeletedMessage s msg)
      else if subtype (rawMessage msg) = Some ''message_changed''
        then then_notify (changeMessage s msg)
      else if subtype (rawMessage msg) = Some ''message_replied''
        then then_notify (replyMessage s msg)
      else then_notify (addMessage s msg client))"

definition onReceiveMessage_resume ::
  "SlackService \<Rightarrow> nat \<Rightarrow> string option \<Rightarrow> SlackMessage \<Rightarrow> nat \<Rightarrow> SlackService" where
  "onReceiveMessage_resume s i img msg client = notify (addMessage_resume s i img msg client)"

section \<open>Reconciling the connections (refresh)\<close>

text \<open>
  The local \<open>cache\<close> is a plain object used as a dictionary from token to the pair
  \<open>[client, reused]\<close>. Its own properties are an association list in insertion order:
  an assignment to a key already there keeps the key's place
  (\<^const>\<open>AList.update\<close>).
\<close>

type_synonym cache = "(string \<times> SlackClient \<times> bool) list"

text \<open>
  A read \<open>cache[token]\<close> of a key the object does not own finds what every object
  inherits from \<open>Object.prototype\<close>: under the names below a function or an object,
  and under \<open>1\<close> the value \<open>true\<close> once \<open>Object.prototype\<close> is marked. Each is a
  truthy value whose element 0 is \<open>undefined\<close>. A key that \<open>cache\<close> owns hides the
  inherited one: a connection made for the token \<open>1\<close> before the mark is found
  after it. No connection ever has one of the names below as its token (\<open>refresh\<close>
  throws before it could construct one), so \<open>cache\<close> never owns one of them.
\<close>

definition inherited :: "bool \<Rightarrow> string list" where
  "inherited marked =
     [''constructor'', ''hasOwnProperty'', ''isPrototypeOf'', ''propertyIsEnumerable'',
      ''toLocaleString'', ''toString'', ''valueOf'', ''__proto__'', ''__defineGetter__'',
      ''__defineSetter__'', ''__lookupGetter__'', ''__lookupSetter__'']
     @ (if marked then [''1''] else [])"

text \<open>
  The assignment \<open>cache[token][1] = true\<close> on an inherited value. Under \<open>__proto__\<close>
  the value is \<open>Object.prototype\<close> itself, which receives the property \<open>1\<close>; under the
  other names it is a function of its own, whose new property nothing reads; under
  \<open>1\<close> it is the boolean \<open>true\<close>, which keeps no property.
\<close>

definition mark_inherited :: "string \<Rightarrow> SlackService \<Rightarrow> SlackService" where
  "mark_inherited t s = (if t = ''__proto__'' then s\<lparr>proto_marked := True\<rparr> else s)"

text \<open>The first loop: \<open>cache[slack.token] = [slack, false]\<close> for each connection in turn.\<close>

definition cache_of :: "SlackClient list \<Rightarrow> cache" where
  "cache_of cs = foldl (\<lambda>cache slack. AList.update (token slack) (slack, False) cache) [] cs"

text \<open>
  The order in which \<open>Object.keys\<close> lists the own properties: first the keys that are
  array indices (the decimal numerals below \<open>2^32 - 1\<close>, without a leading zero) in
  ascending order, then the others in insertion order.
\<close>

definition index_value :: "string \<Rightarrow> int" where
  "index_value k = foldl (\<lambda>n c. 10 * n + (of_char c - 48)) 0 k"

definition array_index :: "string \<Rightarrow> bool" where
  "array_index k =
     (k \<noteq> [] \<and> list_all (\<lambda>c. (48::int) \<le> of_char c \<and> of_char c \<le> (57::int)) k \<and>
      (k = ''0'' \<or> hd k \<noteq> CHR ''0'') \<and> index_value k < 4294967295)"

definition object_keys :: "cache \<Rightarrow> cache" where
  "object_keys cache =
     sort_key (\<lambda>p. index_value (fst p)) (filter (\<lambda>p. array_index (fst p)) cache)
     @ filter (\<lambda>p. \<not> array_index (fst p)) cache"

text \<open>
  The five \<open>this.subscription.add(client.\<dots>.subscribe(\<dots>))\<close> of one round of the
  \<open>map\<close>: one bundle for the connection.
\<close>

definition subscribe :: "SlackClient \<Rightarrow> SlackService \<Rightarrow> SlackService" where
  "subscribe client s = s\<lparr>subscription := subscription s @ [cid client]\<rparr>"

text \<open>
  The head of the function given to \<open>map\<close>: the connection cached under the token,
  marked as reused, or a new one, started. For a token that \<open>cache\<close> only inherits, the
  value read is marked, the connection read from it is \<open>undefined\<close>, and the next
  line (\<open>client.emoji\<close>) throws. The two parsers built next for the connection (one
  stored in its field \<open>attachmentTextParser\<close>) are objects of classes declared
  elsewhere; they are not part of the model, and neither is a failure of the
  constructor of the connection.
\<close>

definition obtain_client ::
  "string \<Rightarrow> cache \<Rightarrow> SlackService \<Rightarrow>
     error \<times> SlackService + SlackClient \<times> cache \<times> SlackService" where
  "obtain_client t cache s =
     (case map_of cache t of
        Some (client, reused) \<Rightarrow> Inr (client, AList.update t (client, True) cache, s)
      | None \<Rightarrow>
          if t \<in> set (inherited (proto_marked s)) then Inl (TypeError, mark_inherited t s)
          else (let client = \<lparr>cid = next_oid s, token = t\<rparr>
                in Inr (client, cache,
                        s\<lparr>next_oid := Suc (next_oid s), calls := calls s @ [Start (cid client)]\<rparr>)))"

text \<open>
  \<open>this.setting.tokens.map(\<dots>)\<close>: the tokens in order, each round seeing the marks and
  the subscriptions of the rounds before. A throw ends the \<open>map\<close>, and the list of
  connections is lost.
\<close>

fun connect_all ::
  "string list \<Rightarrow> cache \<Rightarrow> SlackService \<Rightarrow> (error + SlackClient list) \<times> cache \<times> SlackService" where
  "connect_all [] cache s = (Inr [], cache, s)"
| "connect_all (t # rest) cache s =
     (case obtain_client t cache s of
        Inl (err, s') \<Rightarrow> (Inl err, cache, s')
      | Inr (client, cache', s') \<Rightarrow>
          (case connect_all rest cache' (subscribe client s') of
             (Inl err, cache'', s'') \<Rightarrow> (Inl err, cache'', s'')
           | (Inr cs, cache'', s'') \<Rightarrow> (Inr (client # cs), cache'', s'')))"

text \<open>The last loop: \<open>stop()\<close> on the cached connections that no round has marked.\<close>

definition stop_unused :: "cache \<Rightarrow> call list" where
  "stop_unused cache =
     map (\<lambda>p. Stop (cid (fst (snd p)))) (filter (\<lambda>p. \<not> snd (snd p)) (object_keys cache))"

text \<open>
  \<open>refresh\<close>, given the value of \<open>this.setting.tokens\<close> (the \<open>value\<close> of each element).
  The old Subscription is dropped and a new one is filled by the rounds of the \<open>map\<close>.
\<close>

definition refresh :: "SlackService \<Rightarrow> string list \<Rightarrow> completion \<times> SlackService" where
  "refresh s tokens =
     (case connect_all tokens (cache_of (clients s)) (s\<lparr>subscription := []\<rparr>) of
        (Inl err, cache, s') \<Rightarrow> (Failed err, s')
      | (Inr cs, cache, s') \<Rightarrow>
          (Done, s'\<lparr>clients := cs, calls := calls s' @ stop_unused cache\<rparr>))"

section \<open>Stating the reaction properties\<close>

text \<open>
  The group an entry holds under a rendered key: the lookup both methods start with,
  \<open>this.reactions.find(r => r.reaction === reaction)\<close>.
\<close>

definition group_with :: "string \<Rightarrow> DisplaySlackMessageInfo \<Rightarrow> DisplaySlackReactionInfo option" where
  "group_with key this = find (\<lambda>r. reaction r = key) (reactions this)"

text \<open>
  A sequence of \<open>addReaction\<close> and \<open>removeReaction\<close> calls on one entry. Each call
  comes with the rendering of the entry's parser at that moment: the parser reads the
  emoji registry of the connection, which \<open>onEmojiAdded\<close> and \<open>onEmojiRemoved\<close> change
  between calls.
\<close>

datatype ReactionEvent = ReactionAdded SlackReaction | ReactionRemoved SlackReaction

fun reaction_step ::
  "DisplaySlackMessageInfo \<Rightarrow> (string \<Rightarrow> string) \<times> ReactionEvent \<Rightarrow> DisplaySlackMessageInfo" where
  "reaction_step this (parse, ReactionAdded info) = addReaction parse this info"
| "reaction_step this (parse, ReactionRemoved info) = removeReaction parse this info"

definition reaction_run ::
  "DisplaySlackMessageInfo \<Rightarrow> ((string \<Rightarrow> string) \<times> ReactionEvent) list \<Rightarrow> DisplaySlackMessageInfo" where
  "reaction_run this evs = foldl reaction_step this evs"

subsection \<open>Concrete messages, entries and reactions\<close>

definition ex_parse :: "string \<Rightarrow> string" where
  "ex_parse t = t"

definition ex_raw :: "string option \<Rightarrow> string \<Rightarrow> string \<Rightarrow> SlackFile list option \<Rightarrow> RawMessage" where
  "ex_raw st t c fs =
     \<lparr>subtype = st, ts = t, channel = c, deleted_ts = None, files = fs, comment = None,
      attachments = None, message_r = None\<rparr>"

definition ex_message :: "string option \<Rightarrow> string \<Rightarrow> string \<Rightarrow> SlackFile list option \<Rightarrow> SlackMessage" where
  "ex_message st t c fs =
     \<lparr>text_m = ''hello'', rawMessage = ex_raw st t c fs, subType = st,
      message_m = Some \<lparr>files_b = fs\<rparr>, channelID = c, ts_m = t\<rparr>"

definition ex_info :: "nat \<Rightarrow> SlackMessage \<Rightarrow> DisplaySlackMessageInfo" where
  "ex_info n m = \<lparr>oid = n, message = m, edited = False, image_i = None, reactions = []\<rparr>"

definition ex_smile :: "string \<Rightarrow> SlackReaction" where
  "ex_smile u = \<lparr>ev_reaction = ''smile'', ev_user = u, ev_item = MessageReactionTarget ''100.5''\<rparr>"

definition ex_group :: "string list \<Rightarrow> DisplaySlackReactionInfo" where
  "ex_group us = \<lparr>rawReaction = ''smile'', reaction = '':smile::notitle:'', users = us,
                   showReactedUsers = False\<rparr>"

definition ex_plain :: DisplaySlackMessageInfo where
  "ex_plain = ex_info 0 (ex_message None ''100.5'' ''C1'' None)"

definition ex_entry :: "string list \<Rightarrow> DisplaySlackMessageInfo" where
  "ex_entry us = ex_plain\<lparr>reactions := [ex_group us]\<rparr>"

definition ex_heart :: DisplaySlackReactionInfo where
  "ex_heart = \<lparr>rawReaction = ''heart'', reaction = '':heart::notitle:'', users = [''U3''],
               showReactedUsers = True\<rparr>"

definition ex_two :: "string list \<Rightarrow> DisplaySlackMessageInfo" where
  "ex_two us = ex_plain\<lparr>reactions := [ex_heart, ex_group us]\<rparr>"

definition ex_ops :: "((string \<Rightarrow> string) \<times> ReactionEvent) list" where
  "ex_ops = [(ex_parse, ReactionAdded (ex_smile ''U1'')), (ex_parse, ReactionAdded (ex_smile ''U2'')),
             (ex_parse, ReactionAdded (ex_smile ''U1'')), (ex_parse, ReactionRemoved (ex_smile ''U3''))]"

section \<open>Stating the properties of the resolver\<close>

text \<open>
  The entries the two rules are about, as predicates without faults: a file-share entry
  whose first file is \<open>fl\<close>, and a file-comment entry for the file \<open>fl\<close> and the
  comment \<open>file_comment\<close>.
\<close>

definition share_entry :: "string \<Rightarrow> DisplaySlackMessageInfo \<Rightarrow> bool" where
  "share_entry fl m =
     (subType (message m) = Some ''file_share'' \<and>
      (case files (rawMessage (message m)) of Some (f # _) \<Rightarrow> id_f f = fl | _ \<Rightarrow> False))"

definition comment_entry :: "string \<Rightarrow> string \<Rightarrow> DisplaySlackMessageInfo \<Rightarrow> bool" where
  "comment_entry fl file_comment m =
     (subType (message m) = Some ''file_comment'' \<and>
      (case files (rawMessage (message m)) of Some (f # _) \<Rightarrow> id_f f = fl | _ \<Rightarrow> False) \<and>
      (case comment (rawMessage (message m)) of Some c \<Rightarrow> id_c c = file_comment | None \<Rightarrow> False))"

text \<open>
  The files list of an entry, when present, is not empty; the entries whose first file
  a search may read are those of subtype \<open>file_share\<close> or \<open>file_comment\<close>.
\<close>

definition files_nonempty :: "DisplaySlackMessageInfo \<Rightarrow> bool" where
  "files_nonempty m = (files (rawMessage (message m)) \<noteq> Some [])"

definition reads_first_file :: "DisplaySlackMessageInfo \<Rightarrow> bool" where
  "reads_first_file m =
     (subType (message m) = Some ''file_share'' \<or> subType (message m) = Some ''file_comment'')"

definition safe_entry :: "DisplaySlackMessageInfo \<Rightarrow> bool" where
  "safe_entry m = (reads_first_file m \<longrightarrow> files_nonempty m)"

text \<open>
  The entries on which a search throws: those of the subtype it looks for whose files
  array is there and empty.
\<close>

definition share_faults :: "DisplaySlackMessageInfo \<Rightarrow> bool" where
  "share_faults m =
     (subType (message m) = Some ''file_share'' \<and> files (rawMessage (message m)) = Some [])"

definition comment_faults :: "DisplaySlackMessageInfo \<Rightarrow> bool" where
  "comment_faults m =
     (subType (message m) = Some ''file_comment'' \<and> files (rawMessage (message m)) = Some [])"

subsection \<open>Concrete timeline entries\<close>

definition ex_file :: "string \<Rightarrow> SlackFile" where
  "ex_file i = \<lparr>id_f = i, mimetype = ''text/plain'', thumb_480 = None, thumb_360 = None,
               thumb_160 = None, thumb_80 = None, thumb_64 = None\<rparr>"

definition ex_share :: DisplaySlackMessageInfo where
  "ex_share = ex_info 1 (ex_message (Some ''file_share'') ''101.0'' ''C1'' (Some [ex_file ''F1'']))"

definition ex_bad_comment :: DisplaySlackMessageInfo where
  "ex_bad_comment = ex_info 2 (ex_message (Some ''file_comment'') ''102.0'' ''C1'' (Some []))"

definition ex_nofiles :: DisplaySlackMessageInfo where
  "ex_nofiles = ex_info 3 (ex_message None ''103.0'' ''C1'' (Some []))"

definition ex_bad_share :: DisplaySlackMessageInfo where
  "ex_bad_share = ex_info 4 (ex_message (Some ''file_share'') ''104.0'' ''C1'' (Some []))"

definition ex_comment :: DisplaySlackMessageInfo where
  "ex_comment =
     ex_info 5
       ((ex_message (Some ''file_comment'') ''105.0'' ''C1'' (Some [ex_file ''F1'']))
          \<lparr>rawMessage := (ex_raw (Some ''file_comment'') ''105.0'' ''C1'' (Some [ex_file ''F1'']))
                            \<lparr>comment := Some \<lparr>id_c = ''Fc1''\<rparr>\<rparr>\<rparr>)"

section \<open>Stating the properties of the message handlers\<close>

text \<open>
  The entry a \<open>message_changed\<close> event is about: same \<open>ts\<close> as the embedded message
  \<open>e\<close> and same channel as the event.
\<close>

definition edit_target :: "EditedMessage \<Rightarrow> SlackMessage \<Rightarrow> DisplaySlackMessageInfo \<Rightarrow> bool" where
  "edit_target e msg m =
     (ts (rawMessage (message m)) = ts_e e \<and>
      channel (rawMessage (message m)) = channel (rawMessage msg))"

subsection \<open>Concrete events and service states\<close>

definition ex_edit :: "string \<Rightarrow> EditedMessage" where
  "ex_edit t = \<lparr>ts_e = t, text_e = ''edited'', attachments_e = Some [Attachment ''a1'']\<rparr>"

definition ex_changed :: "string \<Rightarrow> SlackMessage" where
  "ex_changed t =
     (ex_message (Some ''message_changed'') ''105.0'' ''C1'' None)
       \<lparr>rawMessage := (ex_raw (Some ''message_changed'') ''105.0'' ''C1'' None)
                         \<lparr>message_r := Some (ex_edit t)\<rparr>\<rparr>"

definition ex_deleted :: "string \<Rightarrow> SlackMessage" where
  "ex_deleted t =
     (ex_message (Some ''message_deleted'') ''106.0'' ''C1'' None)
       \<lparr>rawMessage := (ex_raw (Some ''message_deleted'') ''106.0'' ''C1'' None)
                         \<lparr>deleted_ts := Some t\<rparr>\<rparr>"

definition ex_service :: "DisplaySlackMessageInfo list \<Rightarrow> SlackService" where
  "ex_service entries = \<lparr>clients = [], infos = entries, onChange = 0, subscription = [],
                    next_oid = 10, calls = [], proto_marked = False\<rparr>"

definition ex_new :: "string \<Rightarrow> SlackMessage" where
  "ex_new t = ex_message None t ''C1'' None"

section \<open>Stating the properties of the reconciliation\<close>

text \<open>
  What holds of object identities in every run: no two connections of the service are
  the same object, and every connection was created before the next identity.
\<close>

definition heap_ok :: "SlackService \<Rightarrow> bool" where
  "heap_ok s = (distinct (map cid (clients s)) \<and> list_all (\<lambda>c. cid c < next_oid s) (clients s))"

subsection \<open>Concrete connections and service states\<close>

definition ex_client :: "nat \<Rightarrow> string \<Rightarrow> SlackClient" where
  "ex_client i t = \<lparr>cid = i, token = t\<rparr>"

definition ex_conn :: "SlackClient list \<Rightarrow> nat \<Rightarrow> call list \<Rightarrow> SlackService" where
  "ex_conn cs n log = \<lparr>clients = cs, infos = [], onChange = 0, subscription = map cid cs,
                       next_oid = n, calls = log, proto_marked = False\<rparr>"

section \<open>Properties of the reaction groups\<close>

subsection \<open>Replacing the first match\<close>

lemmas ex_defs = ex_parse_def ex_raw_def ex_message_def ex_info_def ex_smile_def ex_group_def
  ex_plain_def ex_entry_def reaction_source_def

lemma update_first_none: "find P xs = None \<Longrightarrow> update_first P f xs = xs"
  by (induction xs) (auto split: if_splits)

lemma find_update_first:
  "(\<And>x. P (f x) = P x) \<Longrightarrow> find P (update_first P f xs) = map_option f (find P xs)"
  by (induction xs) auto

lemma update_first_twice:
  "(\<And>x. P (f x) = P x) \<Longrightarrow> update_first P f (update_first P f xs) = update_first P (\<lambda>x. f (f x)) xs"
  by (induction xs) auto

lemma update_first_append_new:
  "find P xs = None \<Longrightarrow> P y \<Longrightarrow> update_first P f (xs @ [y]) = xs @ [f y]"
  by (induction xs) (auto split: if_splits)

lemma find_append_new:
  "find P xs = None \<Longrightarrow> P y \<Longrightarrow> find P (xs @ [y]) = Some y"
  by (induction xs) (auto split: if_splits)

lemma filter_update_first:
  "(\<And>x. P (f x) = P x) \<Longrightarrow> filter (\<lambda>x. \<not> P x) (update_first P f xs) = filter (\<lambda>x. \<not> P x) xs"
  by (induction xs) auto

lemma update_first_split:
  "find P xs = Some x \<Longrightarrow>
   \<exists>pre post. xs = pre @ x # post \<and> (\<forall>p\<in>set pre. \<not> P p) \<and> P x \<and>
              update_first P f xs = pre @ f x # post"
proof (induction xs)
  case Nil
  then show ?case by simp
next
  case (Cons y ys)
  show ?case
  proof (cases "P y")
    case True
    with Cons.prems have "y = x" by simp
    with True show ?thesis
      by (intro exI [of _ "[]"] exI [of _ ys]) simp
  next
    case False
    with Cons.prems have "find P ys = Some x" by simp
    from Cons.IH [OF this] obtain pre post where
      "ys = pre @ x # post" "\<forall>p\<in>set pre. \<not> P p" "P x" "update_first P f ys = pre @ f x # post"
      by blast
    with False show ?thesis
      by (intro exI [of _ "y # pre"] exI [of _ post]) simp
  qed
qed

subsection \<open>Adding and removing one user\<close>

lemma addUser_users: "users (addUser r u) = filter (\<lambda>v. v \<noteq> u) (users r) @ [u]"
  by (simp add: addUser_def removeUser_def Let_def)

lemma addUser_reaction: "reaction (addUser r u) = reaction r"
  by (simp add: addUser_def removeUser_def Let_def)

lemma removeUser_reaction: "reaction (removeUser r u) = reaction r"
  by (simp add: removeUser_def)

lemma addUser_twice: "addUser (addUser r u) u = addUser r u"
  by (simp add: addUser_def removeUser_def Let_def)

lemma addReaction_twice:
  "addReaction parse (addReaction parse this info) info = addReaction parse this info"
proof (cases "find (\<lambda>r. reaction r = parse (reaction_source info)) (reactions this)")
  case None
  then show ?thesis
    by (simp add: addReaction_def Let_def find_append_new update_first_append_new addUser_def removeUser_def)
next
  case (Some g)
  then show ?thesis
    by (simp add: addReaction_def Let_def find_update_first addUser_reaction update_first_twice addUser_twice)
qed

lemma group_with_addReaction:
  "group_with (parse (reaction_source info)) (addReaction parse this info) =
     (case group_with (parse (reaction_source info)) this of
        None \<Rightarrow> Some \<lparr>rawReaction = ev_reaction info, reaction = parse (reaction_source info),
                 users = [ev_user info], showReactedUsers = False\<rparr>
      | Some g \<Rightarrow> Some (addUser g (ev_user info)))"
  by (cases "find (\<lambda>r. reaction r = parse (reaction_source info)) (reactions this)")
     (simp_all add: group_with_def addReaction_def Let_def find_append_new find_update_first addUser_reaction)

lemma count_list_filter_neq: "count_list (filter (\<lambda>v. v \<noteq> u) xs) u = 0"
  by (induction xs) auto

lemma length_filter_neq_distinct:
  "distinct xs \<Longrightarrow> u \<in> set xs \<Longrightarrow> Suc (length (filter (\<lambda>v. v \<noteq> u) xs)) = length xs"
proof (induction xs)
  case Nil
  then show ?case by simp
next
  case (Cons x xs)
  have keep: "u \<notin> set ys \<Longrightarrow> filter (\<lambda>v. v \<noteq> u) ys = ys" for ys
    by (induction ys) auto
  from Cons show ?case
    by (cases "x = u") (auto simp: keep)
qed

lemma addReaction_absent:
  assumes "group_with (parse (reaction_source info)) this = None"
  shows "addReaction parse this info =
     this\<lparr>reactions := reactions this @
       [\<lparr>rawReaction = ev_reaction info, reaction = parse (reaction_source info),
         users = [ev_user info], showReactedUsers = False\<rparr>]\<rparr>"
  using assms by (simp add: group_with_def addReaction_def Let_def)

lemma addReaction_present:
  assumes "group_with (parse (reaction_source info)) this = Some g"
  shows "\<exists>pre post. reactions this = pre @ g # post \<and>
           (\<forall>p\<in>set pre. reaction p \<noteq> parse (reaction_source info)) \<and>
           addReaction parse this info =
             this\<lparr>reactions := pre @
               g\<lparr>users := filter (\<lambda>u. u \<noteq> ev_user info) (users g) @ [ev_user info]\<rparr> # post\<rparr>"
proof -
  let ?P = "\<lambda>r. reaction r = parse (reaction_source info)"
  from assms have f: "find ?P (reactions this) = Some g"
    by (simp add: group_with_def)
  from update_first_split [OF f, of "\<lambda>r. addUser r (ev_user info)"] obtain pre post where
    pp: "reactions this = pre @ g # post" "\<forall>p\<in>set pre. \<not> ?P p"
      "update_first ?P (\<lambda>r. addUser r (ev_user info)) (reactions this) =
         pre @ addUser g (ev_user info) # post"
    by blast
  have g': "addUser g (ev_user info) =
      g\<lparr>users := filter (\<lambda>u. u \<noteq> ev_user info) (users g) @ [ev_user info]\<rparr>"
    by (simp add: addUser_def removeUser_def Let_def)
  have "addReaction parse this info =
      this\<lparr>reactions := pre @
        g\<lparr>users := filter (\<lambda>u. u \<noteq> ev_user info) (users g) @ [ev_user info]\<rparr> # post\<rparr>"
    using f pp(3) g' by (simp add: addReaction_def Let_def)
  with pp(1,2) show ?thesis
    by blast
qed

text \<open>
  C3, as amended. Adding a reaction twice is the same as adding it once. On an entry
  with no group under the rendered key, \<open>addReaction\<close> appends the group of the one
  user and changes nothing else. On an entry with such a group, it changes nothing
  but the list of users of the first such group: the user is taken out and put at
  the end, the other users keep their order, the group keeps its place and its other
  fields, and the other groups and the other fields of the entry are as before.
  After it the user is in the group exactly once; when the user was in the group
  before, the members are the same and, the users being distinct, so is the count.
  The entry is as before exactly when the user was the last of the list and was not
  in it a second time.
\<close>

theorem addReaction_idempotent:
  "addReaction parse (addReaction parse this info) info = addReaction parse this info \<and>
   (group_with (parse (reaction_source info)) this = None \<longrightarrow>
      addReaction parse this info =
        this\<lparr>reactions := reactions this @
          [\<lparr>rawReaction = ev_reaction info, reaction = parse (reaction_source info),
            users = [ev_user info], showReactedUsers = False\<rparr>]\<rparr>) \<and>
   (\<forall>g. group_with (parse (reaction_source info)) this = Some g \<longrightarrow>
      (\<exists>pre post g'.
         g' = g\<lparr>users := filter (\<lambda>u. u \<noteq> ev_user info) (users g) @ [ev_user info]\<rparr> \<and>
         reactions this = pre @ g # post \<and>
         (\<forall>p\<in>set pre. reaction p \<noteq> parse (reaction_source info)) \<and>
         addReaction parse this info = this\<lparr>reactions := pre @ g' # post\<rparr> \<and>
         group_with (parse (reaction_source info)) (addReaction parse this info) = Some g' \<and>
         count_list (users g') (ev_user info) = 1 \<and>
         (ev_user info \<in> set (users g) \<longrightarrow>
            set (users g') = set (users g) \<and>
            (distinct (users g) \<longrightarrow> count g' = count g)) \<and>
         (addReaction parse this info = this \<longleftrightarrow>
            users g \<noteq> [] \<and> last (users g) = ev_user info \<and>
            ev_user info \<notin> set (butlast (users g)))))"
proof (intro conjI allI impI)
  show "addReaction parse (addReaction parse this info) info = addReaction parse this info"
    by (rule addReaction_twice)
next
  assume "group_with (parse (reaction_source info)) this = None"
  then show "addReaction parse this info =
        this\<lparr>reactions := reactions this @
          [\<lparr>rawReaction = ev_reaction info, reaction = parse (reaction_source info),
            users = [ev_user info], showReactedUsers = False\<rparr>]\<rparr>"
    by (rule addReaction_absent)
next
  fix g
  assume g: "group_with (parse (reaction_source info)) this = Some g"
  let ?u = "ev_user info"
  let ?g' = "g\<lparr>users := filter (\<lambda>u. u \<noteq> ?u) (users g) @ [?u]\<rparr>"
  from g addReaction_present [of parse info this g] obtain pre post where
    pp: "reactions this = pre @ g # post"
      "\<forall>p\<in>set pre. reaction p \<noteq> parse (reaction_source info)"
      "addReaction parse this info = this\<lparr>reactions := pre @ ?g' # post\<rparr>"
    by blast
  have gw: "group_with (parse (reaction_source info)) (addReaction parse this info) = Some ?g'"
    using g by (simp add: group_with_addReaction addUser_def removeUser_def Let_def)
  have one: "count_list (users ?g') ?u = 1"
    by (simp add: count_list_filter_neq)
  have mem: "?u \<in> set (users g) \<longrightarrow>
            set (users ?g') = set (users g) \<and> (distinct (users g) \<longrightarrow> count ?g' = count g)"
    by (auto simp: count_def length_filter_neq_distinct)
  have same: "?g' = g \<longleftrightarrow>
      users g \<noteq> [] \<and> last (users g) = ?u \<and> ?u \<notin> set (butlast (users g))"
  proof
    assume "?g' = g"
    then have "users ?g' = users g"
      by simp
    then have eq: "filter (\<lambda>u. u \<noteq> ?u) (users g) @ [?u] = users g"
      by simp
    then have "users g \<noteq> []" "last (users g) = ?u"
      by (metis snoc_eq_iff_butlast)+
    moreover from eq have "butlast (users g) = filter (\<lambda>u. u \<noteq> ?u) (users g)"
      by (metis butlast_snoc)
    then have "?u \<notin> set (butlast (users g))"
      by simp
    ultimately show "users g \<noteq> [] \<and> last (users g) = ?u \<and> ?u \<notin> set (butlast (users g))"
      by simp
  next
    assume h: "users g \<noteq> [] \<and> last (users g) = ?u \<and> ?u \<notin> set (butlast (users g))"
    then have "users g = butlast (users g) @ [?u]"
      by (metis append_butlast_last_id)
    with h obtain ys where ys: "users g = ys @ [?u]" "?u \<notin> set ys"
      by blast
    from ys(2) have "filter (\<lambda>u. u \<noteq> ?u) ys = ys"
      by (induction ys) auto
    with ys(1) have "filter (\<lambda>u. u \<noteq> ?u) (users g) @ [?u] = users g"
      by simp
    then show "?g' = g"
      by simp
  qed
  have noop: "addReaction parse this info = this \<longleftrightarrow>
      users g \<noteq> [] \<and> last (users g) = ?u \<and> ?u \<notin> set (butlast (users g))"
  proof -
    have "addReaction parse this info = this \<longleftrightarrow> pre @ ?g' # post = pre @ g # post"
    proof
      assume "addReaction parse this info = this"
      then have "reactions (addReaction parse this info) = reactions this"
        by simp
      then show "pre @ ?g' # post = pre @ g # post"
        by (simp add: pp(3) pp(1))
    next
      assume "pre @ ?g' # post = pre @ g # post"
      then show "addReaction parse this info = this"
        by (simp add: pp(3) pp(1) [symmetric])
    qed
    also have "\<dots> \<longleftrightarrow> ?g' = g"
      by simp
    finally show ?thesis
      using same by simp
  qed
  from pp gw one mem noop
  show "\<exists>pre post g'.
         g' = g\<lparr>users := filter (\<lambda>u. u \<noteq> ev_user info) (users g) @ [ev_user info]\<rparr> \<and>
         reactions this = pre @ g # post \<and>
         (\<forall>p\<in>set pre. reaction p \<noteq> parse (reaction_source info)) \<and>
         addReaction parse this info = this\<lparr>reactions := pre @ g' # post\<rparr> \<and>
         group_with (parse (reaction_source info)) (addReaction parse this info) = Some g' \<and>
         count_list (users g') (ev_user info) = 1 \<and>
         (ev_user info \<in> set (users g) \<longrightarrow>
            set (users g') = set (users g) \<and>
            (distinct (users g) \<longrightarrow> count g' = count g)) \<and>
         (addReaction parse this info = this \<longleftrightarrow>
            users g \<noteq> [] \<and> last (users g) = ev_user info \<and>
            ev_user info \<notin> set (butlast (users g)))"
    by blast
qed

theorem addReaction_idempotent_witness:
  "group_with (ex_parse (reaction_source (ex_smile ''U1''))) ex_plain = None \<and>
   addReaction ex_parse ex_plain (ex_smile ''U1'') = ex_entry [''U1''] \<and>
   group_with (ex_parse (reaction_source (ex_smile ''U1''))) (ex_two [''U1'', ''U2''])
     = Some (ex_group [''U1'', ''U2'']) \<and>
   reactions (ex_two [''U1'', ''U2'']) = [ex_heart] @ ex_group [''U1'', ''U2''] # [] \<and>
   reaction ex_heart \<noteq> ex_parse (reaction_source (ex_smile ''U1'')) \<and>
   ev_user (ex_smile ''U1'') \<in> set (users (ex_group [''U1'', ''U2''])) \<and>
   distinct (users (ex_group [''U1'', ''U2''])) \<and>
   addReaction ex_parse (ex_two [''U1'', ''U2'']) (ex_smile ''U1'') = ex_two [''U2'', ''U1''] \<and>
   addReaction ex_parse (addReaction ex_parse (ex_two [''U1'', ''U2'']) (ex_smile ''U1'')) (ex_smile ''U1'')
     = ex_two [''U2'', ''U1''] \<and>
   group_with (ex_parse (reaction_source (ex_smile ''U1''))) (ex_two [''U2'', ''U1''])
     = Some (ex_group [''U2'', ''U1'']) \<and>
   count_list (users (ex_group [''U2'', ''U1''])) ''U1'' = 1 \<and>
   set (users (ex_group [''U2'', ''U1''])) = set (users (ex_group [''U1'', ''U2''])) \<and>
   count (ex_group [''U2'', ''U1'']) = count (ex_group [''U1'', ''U2'']) \<and>
   users (ex_group [''U2'', ''U1'']) \<noteq> [] \<and> last (users (ex_group [''U2'', ''U1''])) = ''U1'' \<and>
   ''U1'' \<notin> set (butlast (users (ex_group [''U2'', ''U1'']))) \<and>
   addReaction ex_parse (ex_two [''U2'', ''U1'']) (ex_smile ''U1'') = ex_two [''U2'', ''U1'']"
proof -
  have run: "addReaction ex_parse ex_plain (ex_smile ''U1'') = ex_entry [''U1''] \<and>
      addReaction ex_parse (ex_two [''U1'', ''U2'']) (ex_smile ''U1'') = ex_two [''U2'', ''U1''] \<and>
      addReaction ex_parse (ex_two [''U2'', ''U1'']) (ex_smile ''U1'') = ex_two [''U2'', ''U1'']"
    by (simp add: ex_defs ex_heart_def ex_two_def addReaction_def addUser_def removeUser_def)
  have rest: "group_with (ex_parse (reaction_source (ex_smile ''U1''))) ex_plain = None \<and>
      group_with (ex_parse (reaction_source (ex_smile ''U1''))) (ex_two [''U1'', ''U2''])
        = Some (ex_group [''U1'', ''U2'']) \<and>
      reactions (ex_two [''U1'', ''U2'']) = [ex_heart] @ ex_group [''U1'', ''U2''] # [] \<and>
      reaction ex_heart \<noteq> ex_parse (reaction_source (ex_smile ''U1'')) \<and>
      ev_user (ex_smile ''U1'') \<in> set (users (ex_group [''U1'', ''U2''])) \<and>
      distinct (users (ex_group [''U1'', ''U2''])) \<and>
      group_with (ex_parse (reaction_source (ex_smile ''U1''))) (ex_two [''U2'', ''U1''])
        = Some (ex_group [''U2'', ''U1'']) \<and>
      count_list (users (ex_group [''U2'', ''U1''])) ''U1'' = 1 \<and>
      set (users (ex_group [''U2'', ''U1''])) = set (users (ex_group [''U1'', ''U2''])) \<and>
      count (ex_group [''U2'', ''U1'']) = count (ex_group [''U1'', ''U2'']) \<and>
      users (ex_group [''U2'', ''U1'']) \<noteq> [] \<and> last (users (ex_group [''U2'', ''U1''])) = ''U1'' \<and>
      ''U1'' \<notin> set (butlast (users (ex_group [''U2'', ''U1''])))"
    by (auto simp: ex_defs ex_heart_def ex_two_def group_with_def count_def)
  show ?thesis
    using addReaction_idempotent [of ex_parse ex_plain "ex_smile ''U1''"]
      addReaction_idempotent [of ex_parse "ex_two [''U1'', ''U2'']" "ex_smile ''U1''"]
      addReaction_idempotent [of ex_parse "ex_two [''U2'', ''U1'']" "ex_smile ''U1''"]
    by (simp only: run rest simp_thms)
qed

text \<open>
  C3, as stated, fails: the group under \<open>:smile::notitle:\<close> holds U1 and U2 in this
  order, U1 adds the reaction again, and the entry's reactions are no longer the same
  (the list of users is now U2, U1).
\<close>

theorem addReaction_reorders:
  "group_with (ex_parse (reaction_source (ex_smile ''U1''))) (ex_entry [''U1'', ''U2''])
     = Some (ex_group [''U1'', ''U2'']) \<and>
   ev_user (ex_smile ''U1'') \<in> set (users (ex_group [''U1'', ''U2''])) \<and>
   reactions (addReaction ex_parse (ex_entry [''U1'', ''U2'']) (ex_smile ''U1''))
     \<noteq> reactions (ex_entry [''U1'', ''U2''])"
  by (simp add: ex_defs group_with_def addReaction_def addUser_def removeUser_def)

text \<open>
  C9. After \<open>addUser\<close> the user is the last element of \<open>users\<close>, the others keeping
  their order; when the user was already there the members are the same, and so is
  the count when no user was listed twice.
\<close>

theorem addUser_moves_to_end:
  "users (addUser this user) = filter (\<lambda>u. u \<noteq> user) (users this) @ [user] \<and>
   last (users (addUser this user)) = user \<and>
   (user \<in> set (users this) \<longrightarrow>
      set (users (addUser this user)) = set (users this) \<and>
      (distinct (users this) \<longrightarrow> count (addUser this user) = count this))"
  by (auto simp: addUser_users count_def length_filter_neq_distinct)

theorem addUser_moves_to_end_witness:
  "''U1'' \<in> set (users (ex_group [''U1'', ''U2''])) \<and>
   distinct (users (ex_group [''U1'', ''U2''])) \<and>
   users (addUser (ex_group [''U1'', ''U2'']) ''U1'') = [''U2'', ''U1''] \<and>
   last (users (addUser (ex_group [''U1'', ''U2'']) ''U1'')) = ''U1'' \<and>
   set (users (addUser (ex_group [''U1'', ''U2'']) ''U1'')) = set (users (ex_group [''U1'', ''U2''])) \<and>
   count (addUser (ex_group [''U1'', ''U2'']) ''U1'') = count (ex_group [''U1'', ''U2''])"
  using addUser_moves_to_end [of "ex_group [''U1'', ''U2'']" "''U1''"]
  by (auto simp: ex_defs addUser_def removeUser_def count_def)

subsection \<open>Removing after adding\<close>

lemma removeUser_users: "users (removeUser r u) = filter (\<lambda>v. v \<noteq> u) (users r)"
  by (simp add: removeUser_def)

lemma filter_neq_empty: "set xs \<subseteq> {u} \<Longrightarrow> filter (\<lambda>v. v \<noteq> u) xs = []"
  by (induction xs) auto

lemma filter_not_key_id:
  "find (\<lambda>r. reaction r = key) xs = None \<Longrightarrow> filter (\<lambda>r. reaction r \<noteq> key) xs = xs"
  by (induction xs) (auto split: if_splits)

lemma removeReaction_emptying:
  assumes "group_with (parse (reaction_source info)) this = Some g"
    and "set (users g) \<subseteq> {ev_user info}"
  shows "reactions (removeReaction parse this info) =
           filter (\<lambda>r. reaction r \<noteq> parse (reaction_source info)) (reactions this)"
  using assms
  by (simp add: group_with_def removeReaction_def Let_def count_def removeUser_users
        filter_neq_empty filter_update_first [where P = "\<lambda>r. reaction r = parse (reaction_source info)"]
        removeUser_reaction)

lemma removeReaction_after_add_absent:
  assumes "group_with (parse (reaction_source info)) this = None"
  shows "removeReaction parse (addReaction parse this info) info = this"
  using assms
  by (simp add: group_with_def removeReaction_def addReaction_def Let_def find_append_new
        update_first_append_new count_def removeUser_def filter_not_key_id)

lemma group_with_filter_not_key:
  "reactions e = filter (\<lambda>r. reaction r \<noteq> key) xs \<Longrightarrow> group_with key e = None"
  by (simp add: group_with_def find_None_iff)

lemma removeReaction_after_add_single:
  assumes "group_with (parse (reaction_source info)) this = Some g"
    and "set (users g) \<subseteq> {ev_user info}"
  shows "reactions (removeReaction parse (addReaction parse this info) info) =
           filter (\<lambda>r. reaction r \<noteq> parse (reaction_source info)) (reactions this)"
proof -
  let ?key = "parse (reaction_source info)"
  let ?P = "\<lambda>r. reaction r = ?key"
  have g': "group_with ?key (addReaction parse this info) = Some (addUser g (ev_user info))"
    using assms(1) by (simp add: group_with_addReaction)
  have "set (users (addUser g (ev_user info))) \<subseteq> {ev_user info}"
    using assms(2) by (auto simp: addUser_users)
  with g' have "reactions (removeReaction parse (addReaction parse this info) info) =
      filter (\<lambda>r. reaction r \<noteq> ?key) (reactions (addReaction parse this info))"
    by (rule removeReaction_emptying)
  also have "reactions (addReaction parse this info) =
      update_first ?P (\<lambda>r. addUser r (ev_user info)) (reactions this)"
    using assms(1) by (simp add: group_with_def addReaction_def Let_def)
  also have "filter (\<lambda>r. reaction r \<noteq> ?key) \<dots> = filter (\<lambda>r. reaction r \<noteq> ?key) (reactions this)"
    using filter_update_first [where P = ?P and f = "\<lambda>r. addUser r (ev_user info)"]
    by (simp add: addUser_reaction)
  finally show ?thesis .
qed

text \<open>
  C4. On an entry with no group under the rendered key, \<open>removeReaction\<close> after
  \<open>addReaction\<close> for the same reaction and user gives the entry back. When the group
  exists and holds no other user, the group is gone after the pair of calls, and in
  general a removal that leaves the group without users deletes every group under
  that key and nothing else.
\<close>

theorem remove_after_add_roundtrip:
  "(group_with (parse (reaction_source info)) this = None \<longrightarrow>
      removeReaction parse (addReaction parse this info) info = this) \<and>
   (\<forall>g. group_with (parse (reaction_source info)) this = Some g \<and>
        set (users g) \<subseteq> {ev_user info} \<longrightarrow>
        group_with (parse (reaction_source info))
          (removeReaction parse (addReaction parse this info) info) = None \<and>
        reactions (removeReaction parse (addReaction parse this info) info) =
          filter (\<lambda>r. reaction r \<noteq> parse (reaction_source info)) (reactions this) \<and>
        group_with (parse (reaction_source info)) (removeReaction parse this info) = None \<and>
        reactions (removeReaction parse this info) =
          filter (\<lambda>r. reaction r \<noteq> parse (reaction_source info)) (reactions this))"
proof (intro conjI allI impI)
  assume "group_with (parse (reaction_source info)) this = None"
  then show "removeReaction parse (addReaction parse this info) info = this"
    by (rule removeReaction_after_add_absent)
next
  fix g
  assume h: "group_with (parse (reaction_source info)) this = Some g \<and>
             set (users g) \<subseteq> {ev_user info}"
  then have a: "reactions (removeReaction parse (addReaction parse this info) info) =
          filter (\<lambda>r. reaction r \<noteq> parse (reaction_source info)) (reactions this)"
    by (blast intro: removeReaction_after_add_single)
  from h have b: "reactions (removeReaction parse this info) =
          filter (\<lambda>r. reaction r \<noteq> parse (reaction_source info)) (reactions this)"
    by (blast intro: removeReaction_emptying)
  show "group_with (parse (reaction_source info))
          (removeReaction parse (addReaction parse this info) info) = None"
    using a by (rule group_with_filter_not_key)
  show "reactions (removeReaction parse (addReaction parse this info) info) =
          filter (\<lambda>r. reaction r \<noteq> parse (reaction_source info)) (reactions this)"
    by (rule a)
  show "group_with (parse (reaction_source info)) (removeReaction parse this info) = None"
    using b by (rule group_with_filter_not_key)
  show "reactions (removeReaction parse this info) =
          filter (\<lambda>r. reaction r \<noteq> parse (reaction_source info)) (reactions this)"
    by (rule b)
qed

theorem remove_after_add_roundtrip_witness:
  "group_with (ex_parse (reaction_source (ex_smile ''U1''))) ex_plain = None \<and>
   removeReaction ex_parse
       (addReaction ex_parse ex_plain (ex_smile ''U1''))
       (ex_smile ''U1'')
     = ex_plain \<and>
   group_with (ex_parse (reaction_source (ex_smile ''U1''))) (ex_entry [''U1'']) = Some (ex_group [''U1'']) \<and>
   set (users (ex_group [''U1''])) \<subseteq> {ev_user (ex_smile ''U1'')} \<and>
   group_with (ex_parse (reaction_source (ex_smile ''U1'')))
       (removeReaction ex_parse (addReaction ex_parse (ex_entry [''U1'']) (ex_smile ''U1'')) (ex_smile ''U1''))
     = None \<and>
   reactions (removeReaction ex_parse (addReaction ex_parse (ex_entry [''U1'']) (ex_smile ''U1'')) (ex_smile ''U1''))
     = [] \<and>
   group_with (ex_parse (reaction_source (ex_smile ''U1'')))
       (removeReaction ex_parse (ex_entry [''U1'']) (ex_smile ''U1'')) = None \<and>
   reactions (removeReaction ex_parse (ex_entry [''U1'']) (ex_smile ''U1'')) = []"
  using remove_after_add_roundtrip [of ex_parse "ex_smile ''U1''" ex_plain]
    remove_after_add_roundtrip [of ex_parse "ex_smile ''U1''" "ex_entry [''U1'']"]
  by (simp add: ex_defs group_with_def)

subsection \<open>No user twice in a group\<close>

lemma set_update_first: "set (update_first P f xs) \<subseteq> set xs \<union> f ` set xs"
  by (induction xs) auto

lemma addReaction_distinct:
  assumes "\<forall>g\<in>set (reactions this). distinct (users g)"
  shows "\<forall>g\<in>set (reactions (addReaction parse this info)). distinct (users g)"
proof (cases "find (\<lambda>r. reaction r = parse (reaction_source info)) (reactions this)")
  case None
  with assms show ?thesis
    by (auto simp: addReaction_def Let_def)
next
  case (Some t)
  have "distinct (users (addUser g (ev_user info)))" if "distinct (users g)" for g
    using that by (simp add: addUser_users)
  with assms Some show ?thesis
    using set_update_first [of "\<lambda>r. reaction r = parse (reaction_source info)"
        "\<lambda>r. addUser r (ev_user info)" "reactions this"]
    by (auto simp: addReaction_def Let_def)
qed

lemma removeReaction_distinct:
  assumes "\<forall>g\<in>set (reactions this). distinct (users g)"
  shows "\<forall>g\<in>set (reactions (removeReaction parse this info)). distinct (users g)"
proof (cases "find (\<lambda>r. reaction r = parse (reaction_source info)) (reactions this)")
  case None
  with assms show ?thesis
    by (simp add: removeReaction_def Let_def)
next
  case (Some t)
  have "distinct (users (removeUser g (ev_user info)))" if "distinct (users g)" for g
    using that by (simp add: removeUser_users)
  with assms Some show ?thesis
    using set_update_first [of "\<lambda>r. reaction r = parse (reaction_source info)"
        "\<lambda>r. removeUser r (ev_user info)" "reactions this"]
    by (auto simp: removeReaction_def Let_def)
qed

lemma reaction_step_distinct:
  "\<forall>g\<in>set (reactions this). distinct (users g) \<Longrightarrow>
   \<forall>g\<in>set (reactions (reaction_step this ev)). distinct (users g)"
proof -
  assume inv: "\<forall>g\<in>set (reactions this). distinct (users g)"
  obtain parse e where ev: "ev = (parse, e)"
    by (cases ev)
  show ?thesis
  proof (cases e)
    case (ReactionAdded info)
    with ev inv show ?thesis
      using addReaction_distinct [of this parse info] by simp
  next
    case (ReactionRemoved info)
    with ev inv show ?thesis
      using removeReaction_distinct [of this parse info] by simp
  qed
qed

lemma reaction_run_distinct:
  "\<forall>g\<in>set (reactions this). distinct (users g) \<Longrightarrow>
   \<forall>g\<in>set (reactions (reaction_run this evs)). distinct (users g)"
  unfolding reaction_run_def
proof (induction evs arbitrary: this)
  case Nil
  then show ?case by simp
next
  case (Cons ev evs)
  from Cons.prems have "\<forall>g\<in>set (reactions (reaction_step this ev)). distinct (users g)"
    by (rule reaction_step_distinct)
  then show ?case
    using Cons.IH by simp
qed

text \<open>
  C8. Starting from an entry as the constructor leaves it (no reactions), after any
  sequence of \<open>addReaction\<close> and \<open>removeReaction\<close> calls no group lists a user twice.
\<close>

theorem reaction_users_distinct:
  assumes "reactions this = []"
  shows "\<forall>g\<in>set (reactions (reaction_run this evs)). distinct (users g)"
proof (rule reaction_run_distinct)
  show "\<forall>g\<in>set (reactions this). distinct (users g)"
    using assms by simp
qed

theorem reaction_users_distinct_witness:
  "reactions ex_plain = [] \<and>
   reactions (reaction_run ex_plain ex_ops)
     = [ex_group [''U2'', ''U1'']] \<and>
   ex_group [''U2'', ''U1''] \<in> set (reactions (reaction_run ex_plain ex_ops)) \<and>
   distinct (users (ex_group [''U2'', ''U1'']))"
proof -
  have run: "reactions (reaction_run ex_plain ex_ops)
     = [ex_group [''U2'', ''U1'']]"
    by code_simp
  show ?thesis
    using reaction_users_distinct [of ex_plain ex_ops]
    by (simp add: run) (simp add: ex_plain_def ex_info_def ex_group_def)
qed

section \<open>Properties of the resolver\<close>

lemmas ex_entry_defs = ex_file_def ex_share_def ex_bad_comment_def ex_nofiles_def ex_bad_share_def

lemmas resolver_defs = findReactionTarget_def is_file_share_def is_file_comment_def
  first_file_is_def share_entry_def comment_entry_def files_nonempty_def safe_entry_def
  reads_first_file_def

lemma is_file_share_safe:
  "safe_entry m \<Longrightarrow> is_file_share fl m = Inr (share_entry fl m)"
  by (auto simp: safe_entry_def reads_first_file_def files_nonempty_def is_file_share_def
        first_file_is_def share_entry_def split: option.splits list.splits)

lemma is_file_comment_safe:
  "safe_entry m \<Longrightarrow> is_file_comment fl fc m = Inr (comment_entry fl fc m)"
  by (auto simp: safe_entry_def reads_first_file_def files_nonempty_def is_file_comment_def
        first_file_is_def comment_entry_def split: option.splits list.splits)

lemma find_e_pure:
  "(\<And>m. m \<in> set xs \<Longrightarrow> P m = Inr (Q m)) \<Longrightarrow> find_e P xs = Inr (find Q xs)"
  by (induction xs) auto

lemma findReactionTarget_safe:
  assumes "\<forall>m\<in>set timeline. safe_entry m"
  shows "findReactionTarget timeline item =
     Inr (case item of
            MessageReactionTarget target_ts \<Rightarrow> find (\<lambda>m. ts (rawMessage (message m)) = target_ts) timeline
          | FileReactionTarget fl \<Rightarrow> find (share_entry fl) timeline
          | FileCommentReactionTarget fl fc \<Rightarrow>
              (case find (comment_entry fl fc) timeline of
                 Some m \<Rightarrow> Some m
               | None \<Rightarrow> find (share_entry fl) timeline)
          | OtherReactionTarget t \<Rightarrow> None)"
proof -
  have s: "find_e (is_file_share fl) timeline = Inr (find (share_entry fl) timeline)" for fl
    using assms by (intro find_e_pure) (simp add: is_file_share_safe)
  have c: "find_e (is_file_comment fl fc) timeline = Inr (find (comment_entry fl fc) timeline)" for fl fc
    using assms by (intro find_e_pure) (simp add: is_file_comment_safe)
  show ?thesis
    by (cases item) (simp_all add: findReactionTarget_def s c split: option.splits)
qed

lemma find_e_skip:
  "(\<And>p. p \<in> set pre \<Longrightarrow> P p = Inr False) \<Longrightarrow> find_e P (pre @ xs) = find_e P xs"
  by (induction pre) auto

text \<open>
  C5, as amended. When no entry of subtype \<open>file_share\<close> or \<open>file_comment\<close> has an
  empty files array, a \<open>file_comment\<close> item that no file-comment entry matches, while
  some file-share entry has the file as its first file, resolves to the first such
  file-share entry. An item of an unknown type resolves to nothing, without a fault.
\<close>

theorem file_comment_falls_back:
  "((\<forall>m\<in>set timeline. safe_entry m) \<and>
    (\<forall>m\<in>set timeline. \<not> comment_entry fl fc m) \<and>
    (\<exists>m\<in>set timeline. share_entry fl m) \<longrightarrow>
      (\<exists>m. findReactionTarget timeline (FileCommentReactionTarget fl fc) = Inr (Some m) \<and>
           find (share_entry fl) timeline = Some m \<and> m \<in> set timeline \<and> share_entry fl m)) \<and>
   findReactionTarget timeline (OtherReactionTarget t) = Inr None"
proof (intro conjI impI)
  assume h: "(\<forall>m\<in>set timeline. safe_entry m) \<and>
    (\<forall>m\<in>set timeline. \<not> comment_entry fl fc m) \<and>
    (\<exists>m\<in>set timeline. share_entry fl m)"
  then have none: "find (comment_entry fl fc) timeline = None"
    by (simp add: find_None_iff)
  from h obtain m where m: "find (share_entry fl) timeline = Some m"
    by (cases "find (share_entry fl) timeline") (auto simp: find_None_iff)
  then have "m \<in> set timeline" "share_entry fl m"
    by (auto simp: find_Some_iff)
  moreover have "findReactionTarget timeline (FileCommentReactionTarget fl fc) = Inr (Some m)"
    using h none m by (simp add: findReactionTarget_safe)
  ultimately show "\<exists>m. findReactionTarget timeline (FileCommentReactionTarget fl fc) = Inr (Some m) \<and>
           find (share_entry fl) timeline = Some m \<and> m \<in> set timeline \<and> share_entry fl m"
    using m by blast
next
  show "findReactionTarget timeline (OtherReactionTarget t) = Inr None"
    by (simp add: findReactionTarget_def)
qed

theorem file_comment_falls_back_witness:
  "safe_entry ex_plain \<and> safe_entry ex_share \<and>
   \<not> comment_entry ''F1'' ''Fc1'' ex_plain \<and> \<not> comment_entry ''F1'' ''Fc1'' ex_share \<and>
   share_entry ''F1'' ex_share \<and>
   findReactionTarget [ex_plain, ex_share] (FileCommentReactionTarget ''F1'' ''Fc1'') = Inr (Some ex_share) \<and>
   find (share_entry ''F1'') [ex_plain, ex_share] = Some ex_share \<and>
   findReactionTarget [ex_plain, ex_share] (OtherReactionTarget ''pin'') = Inr None"
  using file_comment_falls_back [of "[ex_plain, ex_share]" "''F1''" "''Fc1''" "''pin''"]
  by (auto simp: ex_defs ex_entry_defs resolver_defs)

text \<open>
  C5, as stated, fails: no file-comment entry matches (file F1, comment Fc1), the
  file-share entry \<open>ex_share\<close> has F1 as its first file, and resolution throws, since
  the first search reads the first file of the file-comment entry before it, whose
  files array is empty.
\<close>

theorem file_comment_lookup_faults:
  "\<not> comment_entry ''F1'' ''Fc1'' ex_bad_comment \<and> \<not> comment_entry ''F1'' ''Fc1'' ex_share \<and>
   share_entry ''F1'' ex_share \<and>
   findReactionTarget [ex_bad_comment, ex_share] (FileCommentReactionTarget ''F1'' ''Fc1'')
     = Inl TypeError"
  by (simp add: ex_defs ex_entry_defs resolver_defs)

lemma find_e_first:
  assumes "\<And>p. p \<in> set pre \<Longrightarrow> P p = Inr False"
  shows "find_e P (pre @ m # post) =
           (case P m of Inl e \<Rightarrow> Inl e | Inr b \<Rightarrow> if b then Inr (Some m) else find_e P post)"
  using assms by (induction pre) auto

lemma find_e_none: "(\<And>p. p \<in> set xs \<Longrightarrow> P p = Inr False) \<Longrightarrow> find_e P xs = Inr None"
  by (induction xs) auto

lemma is_file_share_cases:
  "is_file_share fl m =
     (if share_faults m then Inl TypeError else Inr (share_entry fl m))"
  by (auto simp: is_file_share_def first_file_is_def share_faults_def share_entry_def
        split: option.splits list.splits)

lemma is_file_comment_cases:
  "is_file_comment fl fc m =
     (if comment_faults m then Inl TypeError else Inr (comment_entry fl fc m))"
  by (auto simp: is_file_comment_def first_file_is_def comment_faults_def comment_entry_def
        split: option.splits list.splits)

text \<open>
  C10, as amended. A search reads the first file only of the entries of the subtype
  it looks for (\<open>file_share\<close> for the \<open>file\<close> rule and for the fallback of the
  \<open>file_comment\<close> rule, \<open>file_comment\<close> for the first search of the \<open>file_comment\<close> rule)
  that have a files array, and only up to its first match. So each search returns
  its first match when no entry before the match is of the searched subtype with an
  empty files array, whatever the entries after it and the entries of other
  subtypes are; it throws when such an entry comes before any match; it finds
  nothing when there is neither, and the \<open>file_comment\<close> rule then gives what the
  \<open>file\<close> rule gives. Items of type \<open>message\<close> or of an unknown type never throw, and
  no item throws when every files array present is non-empty.
\<close>

theorem resolver_faults_exactly:
  "((\<forall>p\<in>set pre. \<not> share_faults p \<and> \<not> share_entry fl p) \<and> share_entry fl m \<longrightarrow>
      findReactionTarget (pre @ m # post) (FileReactionTarget fl) = Inr (Some m)) \<and>
   ((\<forall>p\<in>set pre. \<not> share_faults p \<and> \<not> share_entry fl p) \<and> share_faults m \<longrightarrow>
      findReactionTarget (pre @ m # post) (FileReactionTarget fl) = Inl TypeError) \<and>
   ((\<forall>p\<in>set timeline. \<not> share_faults p \<and> \<not> share_entry fl p) \<longrightarrow>
      findReactionTarget timeline (FileReactionTarget fl) = Inr None) \<and>
   ((\<forall>p\<in>set pre. \<not> comment_faults p \<and> \<not> comment_entry fl fc p) \<and> comment_entry fl fc m \<longrightarrow>
      findReactionTarget (pre @ m # post) (FileCommentReactionTarget fl fc) = Inr (Some m)) \<and>
   ((\<forall>p\<in>set pre. \<not> comment_faults p \<and> \<not> comment_entry fl fc p) \<and> comment_faults m \<longrightarrow>
      findReactionTarget (pre @ m # post) (FileCommentReactionTarget fl fc) = Inl TypeError) \<and>
   ((\<forall>p\<in>set timeline. \<not> comment_faults p \<and> \<not> comment_entry fl fc p) \<longrightarrow>
      findReactionTarget timeline (FileCommentReactionTarget fl fc) =
        findReactionTarget timeline (FileReactionTarget fl)) \<and>
   (\<exists>r. findReactionTarget timeline (MessageReactionTarget target_ts) = Inr r) \<and>
   (\<exists>r. findReactionTarget timeline (OtherReactionTarget t) = Inr r) \<and>
   ((\<forall>m\<in>set timeline. files_nonempty m) \<longrightarrow> (\<exists>r. findReactionTarget timeline item = Inr r))"
proof (intro conjI impI)
  assume h: "(\<forall>p\<in>set pre. \<not> share_faults p \<and> \<not> share_entry fl p) \<and> share_entry fl m"
  then have "\<not> share_faults m"
    by (auto simp: share_faults_def share_entry_def)
  with h have "find_e (is_file_share fl) (pre @ m # post) = Inr (Some m)"
    by (subst find_e_first) (simp_all add: is_file_share_cases)
  then show "findReactionTarget (pre @ m # post) (FileReactionTarget fl) = Inr (Some m)"
    by (simp add: findReactionTarget_def)
next
  assume h: "(\<forall>p\<in>set pre. \<not> share_faults p \<and> \<not> share_entry fl p) \<and> share_faults m"
  then have "find_e (is_file_share fl) (pre @ m # post) = Inl TypeError"
    by (subst find_e_first) (simp_all add: is_file_share_cases)
  then show "findReactionTarget (pre @ m # post) (FileReactionTarget fl) = Inl TypeError"
    by (simp add: findReactionTarget_def)
next
  assume "\<forall>p\<in>set timeline. \<not> share_faults p \<and> \<not> share_entry fl p"
  then have "find_e (is_file_share fl) timeline = Inr None"
    by (intro find_e_none) (simp add: is_file_share_cases)
  then show "findReactionTarget timeline (FileReactionTarget fl) = Inr None"
    by (simp add: findReactionTarget_def)
next
  assume h: "(\<forall>p\<in>set pre. \<not> comment_faults p \<and> \<not> comment_entry fl fc p) \<and> comment_entry fl fc m"
  then have "\<not> comment_faults m"
    by (auto simp: comment_faults_def comment_entry_def)
  with h have "find_e (is_file_comment fl fc) (pre @ m # post) = Inr (Some m)"
    by (subst find_e_first) (simp_all add: is_file_comment_cases)
  then show "findReactionTarget (pre @ m # post) (FileCommentReactionTarget fl fc) = Inr (Some m)"
    by (simp add: findReactionTarget_def)
next
  assume h: "(\<forall>p\<in>set pre. \<not> comment_faults p \<and> \<not> comment_entry fl fc p) \<and> comment_faults m"
  then have "find_e (is_file_comment fl fc) (pre @ m # post) = Inl TypeError"
    by (subst find_e_first) (simp_all add: is_file_comment_cases)
  then show "findReactionTarget (pre @ m # post) (FileCommentReactionTarget fl fc) = Inl TypeError"
    by (simp add: findReactionTarget_def)
next
  assume "\<forall>p\<in>set timeline. \<not> comment_faults p \<and> \<not> comment_entry fl fc p"
  then have "find_e (is_file_comment fl fc) timeline = Inr None"
    by (intro find_e_none) (simp add: is_file_comment_cases)
  then show "findReactionTarget timeline (FileCommentReactionTarget fl fc) =
        findReactionTarget timeline (FileReactionTarget fl)"
    by (simp add: findReactionTarget_def)
next
  show "\<exists>r. findReactionTarget timeline (MessageReactionTarget target_ts) = Inr r"
    by (simp add: findReactionTarget_def)
next
  show "\<exists>r. findReactionTarget timeline (OtherReactionTarget t) = Inr r"
    by (simp add: findReactionTarget_def)
next
  assume "\<forall>m\<in>set timeline. files_nonempty m"
  then have "\<forall>m\<in>set timeline. safe_entry m"
    by (simp add: safe_entry_def)
  then show "\<exists>r. findReactionTarget timeline item = Inr r"
    by (simp add: findReactionTarget_safe)
qed

theorem resolver_faults_exactly_witness:
  "\<not> share_faults ex_bad_comment \<and> \<not> share_entry ''F1'' ex_bad_comment \<and> share_entry ''F1'' ex_share \<and>
   findReactionTarget ([ex_bad_comment] @ ex_share # [ex_bad_share]) (FileReactionTarget ''F1'')
     = Inr (Some ex_share) \<and>
   \<not> share_faults ex_nofiles \<and> \<not> share_entry ''F1'' ex_nofiles \<and> share_faults ex_bad_share \<and>
   findReactionTarget ([ex_nofiles] @ ex_bad_share # [ex_share]) (FileReactionTarget ''F1'')
     = Inl TypeError \<and>
   findReactionTarget [ex_nofiles, ex_bad_comment] (FileReactionTarget ''F1'') = Inr None \<and>
   \<not> comment_faults ex_bad_share \<and> \<not> comment_entry ''F1'' ''Fc1'' ex_bad_share \<and>
   comment_entry ''F1'' ''Fc1'' ex_comment \<and>
   findReactionTarget ([ex_bad_share] @ ex_comment # [ex_bad_comment])
       (FileCommentReactionTarget ''F1'' ''Fc1'') = Inr (Some ex_comment) \<and>
   comment_faults ex_bad_comment \<and>
   findReactionTarget ([ex_bad_share] @ ex_bad_comment # [ex_comment])
       (FileCommentReactionTarget ''F1'' ''Fc1'') = Inl TypeError \<and>
   \<not> comment_faults ex_nofiles \<and> \<not> comment_entry ''F1'' ''Fc1'' ex_nofiles \<and>
   \<not> comment_faults ex_share \<and> \<not> comment_entry ''F1'' ''Fc1'' ex_share \<and>
   findReactionTarget [ex_nofiles, ex_share] (FileCommentReactionTarget ''F1'' ''Fc1'')
     = findReactionTarget [ex_nofiles, ex_share] (FileReactionTarget ''F1'') \<and>
   findReactionTarget [ex_nofiles, ex_share] (FileReactionTarget ''F1'') = Inr (Some ex_share) \<and>
   files_nonempty ex_plain \<and> files_nonempty ex_share \<and>
   findReactionTarget [ex_plain, ex_share] (FileReactionTarget ''F1'') = Inr (Some ex_share)"
proof -
  have facts: "\<not> share_faults ex_bad_comment \<and> \<not> share_entry ''F1'' ex_bad_comment \<and>
      share_entry ''F1'' ex_share \<and> \<not> share_faults ex_nofiles \<and> \<not> share_entry ''F1'' ex_nofiles \<and>
      share_faults ex_bad_share \<and> \<not> comment_faults ex_bad_share \<and>
      \<not> comment_entry ''F1'' ''Fc1'' ex_bad_share \<and> comment_entry ''F1'' ''Fc1'' ex_comment \<and>
      comment_faults ex_bad_comment \<and> \<not> comment_faults ex_nofiles \<and>
      \<not> comment_entry ''F1'' ''Fc1'' ex_nofiles \<and> \<not> comment_faults ex_share \<and>
      \<not> comment_entry ''F1'' ''Fc1'' ex_share \<and> files_nonempty ex_plain \<and> files_nonempty ex_share"
    by (simp add: ex_defs ex_entry_defs ex_comment_def share_faults_def comment_faults_def
          share_entry_def comment_entry_def files_nonempty_def)
  show ?thesis
    using resolver_faults_exactly [where pre = "[ex_bad_comment]" and m = ex_share
            and post = "[ex_bad_share]" and fl = "''F1''" and fc = "''Fc1''"
            and timeline = "[ex_nofiles, ex_bad_comment]"]
      resolver_faults_exactly [where pre = "[ex_nofiles]" and m = ex_bad_share
            and post = "[ex_share]" and fl = "''F1''" and fc = "''Fc1''"
            and timeline = "[ex_nofiles, ex_share]"]
      resolver_faults_exactly [where pre = "[ex_bad_share]" and m = ex_comment
            and post = "[ex_bad_comment]" and fl = "''F1''" and fc = "''Fc1''"
            and timeline = "[ex_plain, ex_share]" and item = "FileReactionTarget ''F1''"]
      resolver_faults_exactly [where pre = "[ex_bad_share]" and m = ex_bad_comment
            and post = "[ex_comment]" and fl = "''F1''" and fc = "''Fc1''"
            and timeline = "[ex_plain, ex_share]"]
    by (simp add: facts) (simp add: ex_defs ex_entry_defs resolver_defs)
qed

text \<open>
  C10, as stated, fails: the entry \<open>ex_nofiles\<close> has an empty files array, and both
  lookups return (nothing) without a fault, since its subtype is neither \<open>file_share\<close>
  nor \<open>file_comment\<close> and its first file is never read.
\<close>

theorem empty_files_not_read:
  "files (rawMessage (message ex_nofiles)) = Some [] \<and>
   findReactionTarget [ex_nofiles] (FileReactionTarget ''F1'') = Inr None \<and>
   findReactionTarget [ex_nofiles] (FileCommentReactionTarget ''F1'' ''Fc1'') = Inr None"
  by (simp add: ex_defs ex_entry_defs resolver_defs)

section \<open>Properties of the message handlers\<close>

lemmas ex_event_defs = ex_edit_def ex_changed_def ex_deleted_def ex_service_def ex_new_def

lemma is_edited_pure:
  "message_r (rawMessage msg) = Some e \<Longrightarrow> is_edited msg m = Inr (edit_target e msg m)"
  by (simp add: is_edited_def edit_target_def)

lemma changeMessage_embedded:
  assumes "message_r (rawMessage msg) = Some e"
  shows "changeMessage s msg =
     (case find (edit_target e msg) (infos s) of
        None \<Rightarrow> (Done, s)
      | Some found \<Rightarrow>
          (Done, notify (s\<lparr>infos := update_first (edit_target e msg) (edit e) (infos s)\<rparr>)))"
proof -
  have "find_e (is_edited msg) (infos s) = Inr (find (edit_target e msg) (infos s))"
    using assms by (intro find_e_pure) (simp add: is_edited_pure)
  moreover have "(\<lambda>m. is_edited msg m = Inr True) = edit_target e msg"
    using assms by (auto simp: is_edited_pure)
  ultimately show ?thesis
    using assms by (simp add: changeMessage_def split: option.splits)
qed

text \<open>
  C2, as amended. For a \<open>message_changed\<close> event with its embedded message: when an
  entry matches, the first such entry is marked edited and receives the new text and
  attachments where it stands, and two notifications are sent (one by
  \<open>changeMessage\<close>, one by \<open>onReceiveMessage\<close>); when none matches, the state is
  unchanged by \<open>changeMessage\<close>, which sends no notification, and \<open>onReceiveMessage\<close>
  still sends its one notification.
\<close>

theorem changed_message_edits_first_match:
  assumes "subtype (rawMessage msg) = Some ''message_changed''"
    and "message_r (rawMessage msg) = Some e"
  shows
  "(\<forall>found. find (edit_target e msg) (infos s) = Some found \<longrightarrow>
      (\<exists>pre post. infos s = pre @ found # post \<and> (\<forall>p\<in>set pre. \<not> edit_target e msg p) \<and>
         onReceiveMessage s msg client =
           (Done, s\<lparr>infos := pre @ edit e found # post, onChange := onChange s + 2\<rparr>)) \<and>
      edited (edit e found) \<and> text_m (message (edit e found)) = text_e e \<and>
      attachments (rawMessage (message (edit e found))) = attachments_e e) \<and>
   (find (edit_target e msg) (infos s) = None \<longrightarrow>
      changeMessage s msg = (Done, s) \<and>
      onReceiveMessage s msg client = (Done, s\<lparr>onChange := onChange s + 1\<rparr>))"
proof (intro conjI allI impI)
  fix found
  assume f: "find (edit_target e msg) (infos s) = Some found"
  from update_first_split [OF f, of "edit e"] obtain pre post where
    pp: "infos s = pre @ found # post" "\<forall>p\<in>set pre. \<not> edit_target e msg p"
      "update_first (edit_target e msg) (edit e) (infos s) = pre @ edit e found # post"
    by blast
  have "onReceiveMessage s msg client =
           (Done, s\<lparr>infos := pre @ edit e found # post, onChange := onChange s + 2\<rparr>)"
    using assms f pp(3)
    by (simp add: onReceiveMessage_def changeMessage_embedded notify_def)
  with pp(1,2)
  show "\<exists>pre post. infos s = pre @ found # post \<and> (\<forall>p\<in>set pre. \<not> edit_target e msg p) \<and>
         onReceiveMessage s msg client =
           (Done, s\<lparr>infos := pre @ edit e found # post, onChange := onChange s + 2\<rparr>)"
    by blast
  show "edited (edit e found)" by (simp add: edit_def)
  show "text_m (message (edit e found)) = text_e e" by (simp add: edit_def)
  show "attachments (rawMessage (message (edit e found))) = attachments_e e" by (simp add: edit_def)
next
  assume n: "find (edit_target e msg) (infos s) = None"
  show "changeMessage s msg = (Done, s)"
    using assms n by (simp add: changeMessage_embedded)
  show "onReceiveMessage s msg client = (Done, s\<lparr>onChange := onChange s + 1\<rparr>)"
    using assms n by (simp add: onReceiveMessage_def changeMessage_embedded notify_def)
qed

theorem changed_message_edits_first_match_witness:
  "subtype (rawMessage (ex_changed ''100.5'')) = Some ''message_changed'' \<and>
   message_r (rawMessage (ex_changed ''100.5'')) = Some (ex_edit ''100.5'') \<and>
   find (edit_target (ex_edit ''100.5'') (ex_changed ''100.5'')) (infos (ex_service [ex_share, ex_plain]))
     = Some ex_plain \<and>
   infos (ex_service [ex_share, ex_plain]) = [ex_share] @ ex_plain # [] \<and>
   \<not> edit_target (ex_edit ''100.5'') (ex_changed ''100.5'') ex_share \<and>
   onReceiveMessage (ex_service [ex_share, ex_plain]) (ex_changed ''100.5'') 0 =
     (Done, (ex_service [ex_share, ex_plain])
              \<lparr>infos := [ex_share] @ edit (ex_edit ''100.5'') ex_plain # [], onChange := 2\<rparr>) \<and>
   edited (edit (ex_edit ''100.5'') ex_plain) \<and>
   text_m (message (edit (ex_edit ''100.5'') ex_plain)) = ''edited'' \<and>
   attachments (rawMessage (message (edit (ex_edit ''100.5'') ex_plain))) = Some [Attachment ''a1''] \<and>
   subtype (rawMessage (ex_changed ''999.9'')) = Some ''message_changed'' \<and>
   message_r (rawMessage (ex_changed ''999.9'')) = Some (ex_edit ''999.9'') \<and>
   find (edit_target (ex_edit ''999.9'') (ex_changed ''999.9'')) (infos (ex_service [ex_share, ex_plain]))
     = None \<and>
   changeMessage (ex_service [ex_share, ex_plain]) (ex_changed ''999.9'') =
     (Done, ex_service [ex_share, ex_plain]) \<and>
   onReceiveMessage (ex_service [ex_share, ex_plain]) (ex_changed ''999.9'') 0 =
     (Done, (ex_service [ex_share, ex_plain])\<lparr>onChange := 1\<rparr>)"
  using changed_message_edits_first_match [of "ex_changed ''100.5''" "ex_edit ''100.5''"
          "ex_service [ex_share, ex_plain]" 0]
    changed_message_edits_first_match [of "ex_changed ''999.9''" "ex_edit ''999.9''"
          "ex_service [ex_share, ex_plain]" 0]
  by (simp add: ex_defs ex_entry_defs ex_event_defs edit_target_def edit_def onReceiveMessage_def
        changeMessage_def is_edited_def notify_def)

text \<open>
  C2, as stated, fails: no entry matches the embedded message (ts 999.9), the timeline
  is unchanged, and \<open>onReceiveMessage\<close> has sent a notification.
\<close>

theorem unmatched_change_still_notifies:
  "subtype (rawMessage (ex_changed ''999.9'')) = Some ''message_changed'' \<and>
   find (edit_target (ex_edit ''999.9'') (ex_changed ''999.9'')) (infos (ex_service [ex_plain])) = None \<and>
   infos (snd (onReceiveMessage (ex_service [ex_plain]) (ex_changed ''999.9'') 0))
     = infos (ex_service [ex_plain]) \<and>
   onChange (ex_service [ex_plain]) = 0 \<and>
   onChange (snd (onReceiveMessage (ex_service [ex_plain]) (ex_changed ''999.9'') 0)) = 1"
  by (simp add: ex_defs ex_event_defs edit_target_def onReceiveMessage_def
        changeMessage_def is_edited_def notify_def)

text \<open>
  C7. A \<open>message_deleted\<close> event with \<open>deleted_ts = t\<close> leaves in the timeline the
  entries whose raw \<open>ts\<close> is not \<open>t\<close>, as they were and in their order.
\<close>

theorem deleted_message_removes_by_ts:
  assumes "subtype (rawMessage msg) = Some ''message_deleted''"
    and "deleted_ts (rawMessage msg) = Some t"
  shows "fst (onReceiveMessage s msg client) = Done \<and>
         infos (snd (onReceiveMessage s msg client)) =
           filter (\<lambda>m. ts (rawMessage (message m)) \<noteq> t) (infos s) \<and>
         infos (snd (removeDeletedMessage s msg)) =
           filter (\<lambda>m. ts (rawMessage (message m)) \<noteq> t) (infos s)"
proof -
  have "filter (\<lambda>m. Some t \<noteq> Some (ts (rawMessage (message m)))) xs =
        filter (\<lambda>m. ts (rawMessage (message m)) \<noteq> t) xs" for xs :: "DisplaySlackMessageInfo list"
    by (rule filter_cong) auto
  then show ?thesis
    using assms by (simp add: onReceiveMessage_def removeDeletedMessage_def notify_def)
qed

theorem deleted_message_removes_by_ts_witness:
  "subtype (rawMessage (ex_deleted ''100.5'')) = Some ''message_deleted'' \<and>
   deleted_ts (rawMessage (ex_deleted ''100.5'')) = Some ''100.5'' \<and>
   fst (onReceiveMessage (ex_service [ex_share, ex_plain, ex_nofiles]) (ex_deleted ''100.5'') 0) = Done \<and>
   infos (snd (onReceiveMessage (ex_service [ex_share, ex_plain, ex_nofiles]) (ex_deleted ''100.5'') 0))
     = [ex_share, ex_nofiles] \<and>
   infos (snd (removeDeletedMessage (ex_service [ex_share, ex_plain, ex_nofiles]) (ex_deleted ''100.5'')))
     = [ex_share, ex_nofiles]"
  using deleted_message_removes_by_ts [of "ex_deleted ''100.5''" "''100.5''"
          "ex_service [ex_share, ex_plain, ex_nofiles]" 0]
  by (simp add: ex_defs ex_entry_defs ex_event_defs)

lemma addMessage_infos:
  "message_m msg \<noteq> None \<Longrightarrow>
   infos (snd (addMessage s msg client)) = new_info (next_oid s) msg # infos s \<and>
   next_oid (snd (addMessage s msg client)) = Suc (next_oid s)"
  by (auto simp: addMessage_def Let_def mark_and_notify_def notify_def
        split: option.splits list.splits sum.splits)

lemma then_notify_infos: "infos (snd (then_notify r)) = infos (snd r)"
  by (cases r rule: then_notify.cases) (simp_all add: notify_def)

text \<open>
  C6. A message with a body is put at the head of the timeline, by \<open>addMessage\<close> and
  by \<open>onReceiveMessage\<close> for an event it hands to \<open>addMessage\<close>; three in a row stand
  in the order third, second, first before the entries there were. The end of a
  thumbnail fetch moves nothing.
\<close>

theorem addMessage_inserts_at_head:
  "(message_m msg \<noteq> None \<longrightarrow>
      infos (snd (addMessage s msg client)) = new_info (next_oid s) msg # infos s) \<and>
   (message_m m1 \<noteq> None \<and> message_m m2 \<noteq> None \<and> message_m m3 \<noteq> None \<longrightarrow>
      infos (snd (addMessage (snd (addMessage (snd (addMessage s m1 c1)) m2 c2)) m3 c3)) =
        [new_info (next_oid s + 2) m3, new_info (next_oid s + 1) m2, new_info (next_oid s) m1]
        @ infos s) \<and>
   (message_m msg \<noteq> None \<and> subtype (rawMessage msg) \<noteq> Some ''message_deleted'' \<and>
    subtype (rawMessage msg) \<noteq> Some ''message_changed'' \<and>
    subtype (rawMessage msg) \<noteq> Some ''message_replied'' \<longrightarrow>
      infos (snd (onReceiveMessage s msg client)) = new_info (next_oid s) msg # infos s) \<and>
   map oid (infos (addMessage_resume s i img msg client)) = map oid (infos s) \<and>
   map message (infos (addMessage_resume s i img msg client)) = map message (infos s)"
proof (intro conjI impI)
  assume "message_m msg \<noteq> None \<and> subtype (rawMessage msg) \<noteq> Some ''message_deleted'' \<and>
    subtype (rawMessage msg) \<noteq> Some ''message_changed'' \<and>
    subtype (rawMessage msg) \<noteq> Some ''message_replied''"
  then show "infos (snd (onReceiveMessage s msg client)) = new_info (next_oid s) msg # infos s"
    by (simp add: onReceiveMessage_def then_notify_infos addMessage_infos)
next
  assume "message_m msg \<noteq> None"
  then show "infos (snd (addMessage s msg client)) = new_info (next_oid s) msg # infos s"
    by (simp add: addMessage_infos)
next
  assume "message_m m1 \<noteq> None \<and> message_m m2 \<noteq> None \<and> message_m m3 \<noteq> None"
  then show "infos (snd (addMessage (snd (addMessage (snd (addMessage s m1 c1)) m2 c2)) m3 c3)) =
        [new_info (next_oid s + 2) m3, new_info (next_oid s + 1) m2, new_info (next_oid s) m1]
        @ infos s"
    by (simp add: addMessage_infos)
next
  show "map oid (infos (addMessage_resume s i img msg client)) = map oid (infos s)"
    by (simp add: addMessage_resume_def mark_and_notify_def notify_def)
  show "map message (infos (addMessage_resume s i img msg client)) = map message (infos s)"
    by (simp add: addMessage_resume_def mark_and_notify_def notify_def)
qed


theorem addMessage_inserts_at_head_witness:
  "message_m (ex_new ''1.0'') \<noteq> None \<and> message_m (ex_new ''2.0'') \<noteq> None \<and>
   message_m (ex_new ''3.0'') \<noteq> None \<and>
   subtype (rawMessage (ex_new ''1.0'')) \<noteq> Some ''message_deleted'' \<and>
   subtype (rawMessage (ex_new ''1.0'')) \<noteq> Some ''message_changed'' \<and>
   subtype (rawMessage (ex_new ''1.0'')) \<noteq> Some ''message_replied'' \<and>
   infos (snd (addMessage (ex_service [ex_plain]) (ex_new ''1.0'') 0))
     = [new_info 10 (ex_new ''1.0''), ex_plain] \<and>
   infos (snd (onReceiveMessage (ex_service [ex_plain]) (ex_new ''1.0'') 0))
     = [new_info 10 (ex_new ''1.0''), ex_plain] \<and>
   infos (snd (addMessage (snd (addMessage (snd (addMessage (ex_service [ex_plain])
       (ex_new ''1.0'') 0)) (ex_new ''2.0'') 0)) (ex_new ''3.0'') 0))
     = [new_info 12 (ex_new ''3.0''), new_info 11 (ex_new ''2.0''), new_info 10 (ex_new ''1.0''),
        ex_plain]"
  using addMessage_inserts_at_head [of "ex_new ''1.0''" "ex_service [ex_plain]" 0
          "ex_new ''1.0''" "ex_new ''2.0''" "ex_new ''3.0''" 0 0 0]
  by (simp add: ex_defs ex_event_defs)

section \<open>Properties of the reconciliation\<close>

subsection \<open>The cache\<close>

lemma update_fresh_key: "k \<notin> fst ` set al \<Longrightarrow> AList.update k v al = al @ [(k, v)]"
  by (induction al) auto

lemma foldl_cache_distinct:
  "distinct (map token cs) \<Longrightarrow> token ` set cs \<inter> fst ` set acc = {} \<Longrightarrow>
   foldl (\<lambda>cache slack. AList.update (token slack) (slack, False) cache) acc cs =
     acc @ map (\<lambda>c. (token c, c, False)) cs"
proof (induction cs arbitrary: acc)
  case Nil
  then show ?case by simp
next
  case (Cons c cs)
  from Cons.prems have fresh: "token c \<notin> fst ` set acc"
    by auto
  have "token ` set cs \<inter> fst ` set (acc @ [(token c, c, False)]) = {}"
    using Cons.prems by auto
  with Cons.IH [of "acc @ [(token c, c, False)]"] Cons.prems fresh show ?case
    by (simp add: update_fresh_key)
qed

lemma cache_of_distinct:
  "distinct (map token cs) \<Longrightarrow> cache_of cs = map (\<lambda>c. (token c, c, False)) cs"
  using foldl_cache_distinct [of cs "[]"] by (simp add: cache_of_def)

lemma update_mark:
  "distinct (map fst al) \<Longrightarrow> map_of al t = Some (c, u) \<Longrightarrow>
   AList.update t (c, True) al = map (\<lambda>p. (fst p, fst (snd p), snd (snd p) \<or> fst p = t)) al"
proof (induction al)
  case Nil
  then show ?case by simp
next
  case (Cons p al)
  show ?case
  proof (cases "fst p = t")
    case True
    with Cons.prems have p: "p = (t, c, u)"
      by (cases p) auto
    from Cons.prems True have "t \<notin> fst ` set al"
      by auto
    then have "map (\<lambda>p. (fst p, fst (snd p), snd (snd p) \<or> fst p = t)) al = al"
      by (induction al) auto
    with p show ?thesis by simp
  next
    case False
    with Cons show ?thesis
      by (cases p) auto
  qed
qed


subsection \<open>The rounds of the map\<close>

lemma connect_all_result:
  assumes "distinct (map fst cache)"
    and "\<forall>p\<in>set cache. token (fst (snd p)) = fst p"
    and "\<forall>t\<in>set tokens. t \<notin> set (inherited (proto_marked s))"
  shows "\<exists>cs k. connect_all tokens cache s =
            (Inr cs, map (\<lambda>p. (fst p, fst (snd p), snd (snd p) \<or> fst p \<in> set tokens)) cache,
             s\<lparr>subscription := subscription s @ map cid cs,
               next_oid := next_oid s + k,
               calls := calls s @ map Start [next_oid s ..< next_oid s + k]\<rparr>) \<and>
          map token cs = tokens \<and>
          (\<forall>c\<in>set cs. \<forall>d u. map_of cache (token c) = Some (d, u) \<longrightarrow> d = c) \<and>
          map cid (filter (\<lambda>c. map_of cache (token c) = None) cs) = [next_oid s ..< next_oid s + k]"
  using assms
proof (induction tokens arbitrary: cache s)
  case Nil
  show ?case
    by (intro exI [of _ "[]"] exI [of _ 0]) simp
next
  case (Cons t rest)
  show ?case
  proof (cases "map_of cache t")
    case None
    let ?client = "\<lparr>cid = next_oid s, token = t\<rparr>"
    let ?s1 = "subscribe ?client (s\<lparr>next_oid := Suc (next_oid s), calls := calls s @ [Start (next_oid s)]\<rparr>)"
    from Cons.prems(3) have ob: "obtain_client t cache s =
        Inr (?client, cache, s\<lparr>next_oid := Suc (next_oid s), calls := calls s @ [Start (next_oid s)]\<rparr>)"
      using None by (simp add: obtain_client_def)
    from Cons.prems(3) have rest: "\<forall>t\<in>set rest. t \<notin> set (inherited (proto_marked ?s1))"
      by (simp add: subscribe_def)
    from Cons.IH [OF Cons.prems(1) Cons.prems(2) rest]
    obtain cs k where ih:
      "connect_all rest cache ?s1 =
         (Inr cs, map (\<lambda>p. (fst p, fst (snd p), snd (snd p) \<or> fst p \<in> set rest)) cache,
          ?s1\<lparr>subscription := subscription ?s1 @ map cid cs,
               next_oid := next_oid ?s1 + k,
               calls := calls ?s1 @ map Start [next_oid ?s1 ..< next_oid ?s1 + k]\<rparr>)"
      "map token cs = rest"
      "\<forall>c\<in>set cs. \<forall>d u. map_of cache (token c) = Some (d, u) \<longrightarrow> d = c"
      "map cid (filter (\<lambda>c. map_of cache (token c) = None) cs) = [next_oid ?s1 ..< next_oid ?s1 + k]"
      by blast
    have keys: "t \<notin> fst ` set cache"
      using None by (simp add: map_of_eq_None_iff)
    have marks: "map (\<lambda>p. (fst p, fst (snd p), snd (snd p) \<or> fst p \<in> set rest)) cache =
                 map (\<lambda>p. (fst p, fst (snd p), snd (snd p) \<or> fst p \<in> set (t # rest))) cache"
      using keys by (intro map_cong) auto
    have upt: "[next_oid s ..< next_oid s + Suc k] = next_oid s # [Suc (next_oid s) ..< Suc (next_oid s) + k]"
      by (simp add: upt_rec)
    show ?thesis
    proof (intro exI [of _ "?client # cs"] exI [of _ "Suc k"] conjI)
      show "connect_all (t # rest) cache s =
            (Inr (?client # cs),
             map (\<lambda>p. (fst p, fst (snd p), snd (snd p) \<or> fst p \<in> set (t # rest))) cache,
             s\<lparr>subscription := subscription s @ map cid (?client # cs),
               next_oid := next_oid s + Suc k,
               calls := calls s @ map Start [next_oid s ..< next_oid s + Suc k]\<rparr>)"
        using ob ih(1) marks upt by (simp add: subscribe_def)
      show "map token (?client # cs) = t # rest"
        using ih(2) by simp
      show "\<forall>c\<in>set (?client # cs). \<forall>d u. map_of cache (token c) = Some (d, u) \<longrightarrow> d = c"
        using ih(3) None by simp
      show "map cid (filter (\<lambda>c. map_of cache (token c) = None) (?client # cs)) =
              [next_oid s ..< next_oid s + Suc k]"
        using ih(4) None upt by (simp add: subscribe_def)
    qed
  next
    case (Some found)
    obtain client reused where found: "found = (client, reused)"
      by (cases found)
    let ?cache1 = "AList.update t (client, True) cache"
    let ?s1 = "subscribe client s"
    from Some found have look: "map_of cache t = Some (client, reused)"
      by simp
    then have ob: "obtain_client t cache s = Inr (client, ?cache1, s)"
      by (simp add: obtain_client_def)
    from look have "(t, client, reused) \<in> set cache"
      by (rule map_of_SomeD)
    with Cons.prems(2) have tok: "token client = t"
      by fastforce
    have c1: "?cache1 = map (\<lambda>p. (fst p, fst (snd p), snd (snd p) \<or> fst p = t)) cache"
      using Cons.prems(1) look by (rule update_mark)
    have d1: "distinct (map fst ?cache1)"
      using Cons.prems(1) by (rule distinct_update)
    have w1: "\<forall>p\<in>set ?cache1. token (fst (snd p)) = fst p"
      using Cons.prems(2) by (auto simp: c1)
    from Cons.prems(3) have rest: "\<forall>t\<in>set rest. t \<notin> set (inherited (proto_marked ?s1))"
      by (simp add: subscribe_def)
    have none1: "map_of ?cache1 x = None \<longleftrightarrow> map_of cache x = None" for x
      using look by (simp add: update_conv')
    have some1: "map_of ?cache1 x = Some (d, u) \<Longrightarrow> \<exists>u'. map_of cache x = Some (d, u')" for x d u
      using look by (cases "x = t") (auto simp: update_conv')
    from Cons.IH [OF d1 w1 rest]
    obtain cs k where ih:
      "connect_all rest ?cache1 ?s1 =
         (Inr cs, map (\<lambda>p. (fst p, fst (snd p), snd (snd p) \<or> fst p \<in> set rest)) ?cache1,
          ?s1\<lparr>subscription := subscription ?s1 @ map cid cs,
               next_oid := next_oid ?s1 + k,
               calls := calls ?s1 @ map Start [next_oid ?s1 ..< next_oid ?s1 + k]\<rparr>)"
      "map token cs = rest"
      "\<forall>c\<in>set cs. \<forall>d u. map_of ?cache1 (token c) = Some (d, u) \<longrightarrow> d = c"
      "map cid (filter (\<lambda>c. map_of ?cache1 (token c) = None) cs) = [next_oid ?s1 ..< next_oid ?s1 + k]"
      by blast
    have marks: "map (\<lambda>p. (fst p, fst (snd p), snd (snd p) \<or> fst p \<in> set rest)) ?cache1 =
                 map (\<lambda>p. (fst p, fst (snd p), snd (snd p) \<or> fst p \<in> set (t # rest))) cache"
      by (subst c1) auto
    have same: "\<forall>c\<in>set cs. \<forall>d u. map_of cache (token c) = Some (d, u) \<longrightarrow> d = c"
    proof (intro ballI allI impI)
      fix c d u
      assume c: "c \<in> set cs" and m: "map_of cache (token c) = Some (d, u)"
      then have "\<exists>u'. map_of ?cache1 (token c) = Some (d, u')"
        using look by (cases "token c = t") (auto simp: update_conv')
      with ih(3) c show "d = c" by blast
    qed
    show ?thesis
    proof (intro exI [of _ "client # cs"] exI [of _ k] conjI)
      show "connect_all (t # rest) cache s =
            (Inr (client # cs),
             map (\<lambda>p. (fst p, fst (snd p), snd (snd p) \<or> fst p \<in> set (t # rest))) cache,
             s\<lparr>subscription := subscription s @ map cid (client # cs),
               next_oid := next_oid s + k,
               calls := calls s @ map Start [next_oid s ..< next_oid s + k]\<rparr>)"
        using ob ih(1) marks by (simp add: subscribe_def)
      show "map token (client # cs) = t # rest"
        using ih(2) tok by simp
      show "\<forall>c\<in>set (client # cs). \<forall>d u. map_of cache (token c) = Some (d, u) \<longrightarrow> d = c"
        using same look tok by simp
      show "map cid (filter (\<lambda>c. map_of cache (token c) = None) (client # cs)) =
              [next_oid s ..< next_oid s + k]"
        using ih(4) look tok by (simp add: none1 subscribe_def)
    qed
  qed
qed


subsection \<open>Counting the calls\<close>

lemma count_list_distinct:
  "distinct xs \<Longrightarrow> count_list xs x = (if x \<in> set xs then 1 else 0)"
  by (induction xs) auto

lemma count_list_insort_key:
  "count_list (map h (filter P (insort_key f a xs))) x = count_list (map h (filter P (a # xs))) x"
  by (induction xs) auto

lemma count_list_sort_key:
  "count_list (map h (filter P (sort_key f xs))) x = count_list (map h (filter P xs)) x"
proof (induction xs)
  case Nil
  then show ?case by simp
next
  case (Cons a xs)
  have "count_list (map h (filter P (sort_key f (a # xs)))) x =
        count_list (map h (filter P (a # sort_key f xs))) x"
    by (simp add: sort_key_def count_list_insort_key)
  with Cons show ?case by simp
qed

lemma count_list_split:
  "count_list (map h (filter P (filter A xs))) x + count_list (map h (filter P (filter (\<lambda>p. \<not> A p) xs))) x
     = count_list (map h (filter P xs)) x"
  by (induction xs) auto

lemma count_list_object_keys:
  "count_list (map h (filter P (object_keys al))) x = count_list (map h (filter P al)) x"
proof -
  let ?A = "\<lambda>p. array_index (fst p)"
  let ?f = "\<lambda>p. index_value (fst p)"
  have "count_list (map h (filter P (object_keys al))) x =
        count_list (map h (filter P (sort_key ?f (filter ?A al)))) x +
        count_list (map h (filter P (filter (\<lambda>p. \<not> ?A p) al))) x"
    by (simp only: object_keys_def filter_append map_append count_list_append)
  also have "\<dots> = count_list (map h (filter P (filter ?A al))) x +
        count_list (map h (filter P (filter (\<lambda>p. \<not> ?A p) al))) x"
    by (simp only: count_list_sort_key)
  also have "\<dots> = count_list (map h (filter P al)) x"
    by (rule count_list_split)
  finally show ?thesis .
qed

lemma count_stop_unused:
  "count_list (stop_unused (map (\<lambda>c. (token c, c, token c \<in> set tokens)) cs)) x =
   count_list (map (\<lambda>c. Stop (cid c)) (filter (\<lambda>c. token c \<notin> set tokens) cs)) x"
proof -
  have "map (\<lambda>p. Stop (cid (fst (snd p))))
          (filter (\<lambda>p. \<not> snd (snd p)) (map (\<lambda>c. (token c, c, token c \<in> set tokens)) cs)) =
        map (\<lambda>c. Stop (cid c)) (filter (\<lambda>c. token c \<notin> set tokens) cs)"
    by (induction cs) auto
  then show ?thesis
    by (simp add: stop_unused_def count_list_object_keys)
qed

lemma count_stops_of:
  "distinct (map cid cs) \<Longrightarrow>
   count_list (map (\<lambda>c. Stop (cid c)) (filter Q cs)) (Stop i) =
     (if \<exists>c\<in>set cs. cid c = i \<and> Q c then 1 else 0)"
proof (induction cs)
  case Nil
  then show ?case by simp
next
  case (Cons a cs)
  then have ih: "count_list (map (\<lambda>c. Stop (cid c)) (filter Q cs)) (Stop i) =
     (if \<exists>c\<in>set cs. cid c = i \<and> Q c then 1 else 0)"
    by simp
  from Cons.prems have "cid a \<notin> cid ` set cs"
    by simp
  then have fresh: "\<forall>c\<in>set cs. cid c \<noteq> cid a"
    by (metis imageI)
  show ?case
  proof (cases "cid a = i \<and> Q a")
    case True
    with fresh have "\<not> (\<exists>c\<in>set cs. cid c = i \<and> Q c)"
      by auto
    with True ih show ?thesis by simp
  next
    case False
    with ih show ?thesis by auto
  qed
qed

lemma count_start_in_stops: "count_list (map (\<lambda>c. Stop (cid c)) cs) (Start i) = 0"
  by (induction cs) auto

lemma count_starts:
  "count_list (map Start [n..<m]) (Start i) = (if n \<le> i \<and> i < m then 1 else 0)"
proof -
  have "distinct (map Start [n..<m])"
    by (simp add: distinct_map inj_on_def)
  then show ?thesis
    by (auto simp: count_list_distinct)
qed

lemma count_stop_in_starts: "count_list (map Start xs) (Stop i) = 0"
  by (induction xs) auto


subsection \<open>Reused, new and dropped connections\<close>

lemma map_of_cache_member:
  "distinct (map token cs) \<Longrightarrow> c \<in> set cs \<Longrightarrow>
   map_of (map (\<lambda>c. (token c, c, False)) cs) (token c) = Some (c, False)"
  by (induction cs) (auto simp: image_iff)

lemma map_of_cache_absent:
  "t \<notin> token ` set cs \<Longrightarrow> map_of (map (\<lambda>c. (token c, c, False)) cs) t = None"
  by (induction cs) auto

lemma map_of_cache_SomeD:
  "map_of (map (\<lambda>c. (token c, c, False)) cs) t = Some (d, u) \<Longrightarrow> d \<in> set cs \<and> token d = t"
  by (induction cs) (auto split: if_splits)

text \<open>
  When no two connections of the service share a token, the desired list has no token
  twice and none that \<open>cache\<close> inherits, \<open>refresh\<close> returns with one connection for
  each desired token, in the order of the list, and: a connection whose token is
  desired is kept, the same object, and neither started nor stopped; a desired token
  that no connection had receives exactly one connection, a new object, started once
  and not stopped; a connection whose token is not desired is no longer in the list
  and is stopped once. Each connection of the new list has one bundle of
  subscriptions.
\<close>

lemma refresh_distinct_tokens:
  assumes heap: "heap_ok s"
    and dtok: "distinct (map token (clients s))"
    and ddes: "distinct tokens"
    and plain: "\<forall>t\<in>set tokens. t \<notin> set (inherited (proto_marked s))"
  shows "\<exists>s'. refresh s tokens = (Done, s') \<and>
     map token (clients s') = tokens \<and>
     (\<forall>c\<in>set (clients s). token c \<in> set tokens \<longrightarrow>
        c \<in> set (clients s') \<and>
        count_list (calls s') (Start (cid c)) = count_list (calls s) (Start (cid c)) \<and>
        count_list (calls s') (Stop (cid c)) = count_list (calls s) (Stop (cid c))) \<and>
     (\<forall>t\<in>set tokens. t \<notin> token ` set (clients s) \<longrightarrow>
        (\<exists>!c. c \<in> set (clients s') \<and> token c = t)) \<and>
     (\<forall>c\<in>set (clients s'). token c \<notin> token ` set (clients s) \<longrightarrow>
        next_oid s \<le> cid c \<and>
        count_list (calls s') (Start (cid c)) = Suc (count_list (calls s) (Start (cid c))) \<and>
        count_list (calls s') (Stop (cid c)) = count_list (calls s) (Stop (cid c))) \<and>
     (\<forall>c\<in>set (clients s). token c \<notin> set tokens \<longrightarrow>
        c \<notin> set (clients s') \<and>
        count_list (calls s') (Stop (cid c)) = Suc (count_list (calls s) (Stop (cid c))) \<and>
        count_list (calls s') (Start (cid c)) = count_list (calls s) (Start (cid c))) \<and>
     heap_ok s' \<and> distinct (map token (clients s')) \<and>
     subscription s' = map cid (clients s') \<and> infos s' = infos s \<and> onChange s' = onChange s"
proof -
  let ?old = "clients s"
  let ?n = "next_oid s"
  let ?cache = "map (\<lambda>c. (token c, c, False)) ?old"
  let ?new = "\<lambda>c. map_of ?cache (token c) = None"
  have cache: "cache_of ?old = ?cache"
    using dtok by (rule cache_of_distinct)
  have keys: "distinct (map fst ?cache)"
    using dtok by (simp add: comp_def)
  have wf: "\<forall>p\<in>set ?cache. token (fst (snd p)) = fst p"
    by auto
  have plain0: "\<forall>t\<in>set tokens. t \<notin> set (inherited (proto_marked (s\<lparr>subscription := []\<rparr>)))"
    using plain by simp
  from connect_all_result [OF keys wf plain0]
  obtain cs k where run:
    "connect_all tokens ?cache (s\<lparr>subscription := []\<rparr>) =
       (Inr cs, map (\<lambda>p. (fst p, fst (snd p), snd (snd p) \<or> fst p \<in> set tokens)) ?cache,
        s\<lparr>subscription := map cid cs, next_oid := ?n + k,
          calls := calls s @ map Start [?n ..< ?n + k]\<rparr>)"
    and toks: "map token cs = tokens"
    and same: "\<forall>c\<in>set cs. \<forall>d u. map_of ?cache (token c) = Some (d, u) \<longrightarrow> d = c"
    and fresh: "map cid (filter ?new cs) = [?n ..< ?n + k]"
    by auto
  have marks: "map (\<lambda>p. (fst p, fst (snd p), snd (snd p) \<or> fst p \<in> set tokens)) ?cache =
               map (\<lambda>c. (token c, c, token c \<in> set tokens)) ?old"
    by simp
  define stops where "stops = stop_unused (map (\<lambda>c. (token c, c, token c \<in> set tokens)) ?old)"
  define s' where "s' = s\<lparr>subscription := map cid cs, next_oid := ?n + k,
      calls := (calls s @ map Start [?n ..< ?n + k]) @ stops, clients := cs\<rparr>"
  from run have run': "connect_all tokens ?cache (s\<lparr>subscription := []\<rparr>) =
       (Inr cs, map (\<lambda>c. (token c, c, token c \<in> set tokens)) ?old,
        s\<lparr>subscription := map cid cs, next_oid := ?n + k,
          calls := calls s @ map Start [?n ..< ?n + k]\<rparr>)"
    by (simp only: marks)
  have res: "refresh s tokens = (Done, s')"
    by (simp add: refresh_def cache run' s'_def stops_def)
  have cl: "clients s' = cs" and no: "next_oid s' = ?n + k"
    and ca: "calls s' = (calls s @ map Start [?n ..< ?n + k]) @ stops"
    by (simp_all add: s'_def)
  have old_lt: "cid c < ?n" if "c \<in> set ?old" for c
    using heap that by (simp add: heap_ok_def list_all_iff)
  have old_inj: "c = d" if "c \<in> set ?old" "d \<in> set ?old" "cid c = cid d" for c d
    using heap that by (simp add: heap_ok_def distinct_map inj_on_def)
  have count_start: "count_list (calls s') (Start i) =
      count_list (calls s) (Start i) + (if ?n \<le> i \<and> i < ?n + k then 1 else 0)" for i
    by (simp add: ca stops_def count_stop_unused count_start_in_stops count_starts)
  have dcid: "distinct (map cid ?old)"
    using heap by (simp add: heap_ok_def)
  have count_stop: "count_list (calls s') (Stop i) =
      count_list (calls s) (Stop i) +
      (if \<exists>c\<in>set ?old. cid c = i \<and> token c \<notin> set tokens then 1 else 0)" for i
    using count_stops_of [OF dcid, of "\<lambda>c. token c \<notin> set tokens" i]
    by (simp add: ca stops_def count_stop_unused count_stop_in_starts)
  have new_range: "?n \<le> cid c \<and> cid c < ?n + k" if "c \<in> set cs" "?new c" for c
  proof -
    from that have "cid c \<in> set (map cid (filter ?new cs))"
      by simp
    then show ?thesis
      by (simp only: fresh) simp
  qed
  have reused_old: "c \<in> set ?old" if "c \<in> set cs" "\<not> ?new c" for c
  proof -
    from that(2) obtain d u where du: "map_of ?cache (token c) = Some (d, u)"
      by (cases "map_of ?cache (token c)") auto
    with same that(1) have "d = c" by blast
    with du show ?thesis
      using map_of_cache_SomeD [of ?old "token c" d u] by simp
  qed
  have dcs: "distinct cs"
    using toks ddes by (metis distinct_map)
  have tinj: "c = d" if "c \<in> set cs" "d \<in> set cs" "token c = token d" for c d
    using toks ddes that by (metis distinct_map inj_on_def)
  have reuse: "c \<in> set cs" if "c \<in> set ?old" "token c \<in> set tokens" for c
  proof -
    from that(2) toks obtain c' where c': "c' \<in> set cs" "token c' = token c"
      by (metis (no_types, lifting) image_iff set_map)
    have "map_of ?cache (token c') = Some (c, False)"
      using map_of_cache_member [OF dtok that(1)] c'(2) by simp
    with same c'(1) have "c = c'" by blast
    with c'(1) show ?thesis by simp
  qed
  have A: "map token (clients s') = tokens"
    by (simp add: cl toks)
  have B: "\<forall>c\<in>set ?old. token c \<in> set tokens \<longrightarrow>
        c \<in> set (clients s') \<and>
        count_list (calls s') (Start (cid c)) = count_list (calls s) (Start (cid c)) \<and>
        count_list (calls s') (Stop (cid c)) = count_list (calls s) (Stop (cid c))"
  proof (intro ballI impI conjI)
    fix c assume c: "c \<in> set ?old" "token c \<in> set tokens"
    show "c \<in> set (clients s')"
      using reuse [OF c] by (simp add: cl)
    show "count_list (calls s') (Start (cid c)) = count_list (calls s) (Start (cid c))"
      using old_lt [OF c(1)] by (simp add: count_start)
    have "\<not> (\<exists>d\<in>set ?old. cid d = cid c \<and> token d \<notin> set tokens)"
      using old_inj c by blast
    then show "count_list (calls s') (Stop (cid c)) = count_list (calls s) (Stop (cid c))"
      by (simp add: count_stop)
  qed
  have U: "\<forall>t\<in>set tokens. t \<notin> token ` set ?old \<longrightarrow> (\<exists>!c. c \<in> set (clients s') \<and> token c = t)"
  proof (intro ballI impI)
    fix t assume "t \<in> set tokens"
    with toks obtain c where "c \<in> set cs" "token c = t"
      by (metis (no_types, lifting) image_iff set_map)
    then show "\<exists>!c. c \<in> set (clients s') \<and> token c = t"
      using tinj by (auto simp: cl)
  qed
  have C: "\<forall>c\<in>set (clients s'). token c \<notin> token ` set ?old \<longrightarrow>
        next_oid s \<le> cid c \<and>
        count_list (calls s') (Start (cid c)) = Suc (count_list (calls s) (Start (cid c))) \<and>
        count_list (calls s') (Stop (cid c)) = count_list (calls s) (Stop (cid c))"
  proof (intro ballI impI)
    fix c assume c: "c \<in> set (clients s')" "token c \<notin> token ` set ?old"
    then have "?new c"
      by (simp add: map_of_cache_absent)
    with c(1) have range: "?n \<le> cid c \<and> cid c < ?n + k"
      using new_range by (simp add: cl)
    then have "\<not> (\<exists>d\<in>set ?old. cid d = cid c \<and> token d \<notin> set tokens)"
      using old_lt by fastforce
    with range show "next_oid s \<le> cid c \<and>
        count_list (calls s') (Start (cid c)) = Suc (count_list (calls s) (Start (cid c))) \<and>
        count_list (calls s') (Stop (cid c)) = count_list (calls s) (Stop (cid c))"
      by (simp add: count_start count_stop)
  qed
  have D: "\<forall>c\<in>set ?old. token c \<notin> set tokens \<longrightarrow>
        c \<notin> set (clients s') \<and>
        count_list (calls s') (Stop (cid c)) = Suc (count_list (calls s) (Stop (cid c))) \<and>
        count_list (calls s') (Start (cid c)) = count_list (calls s) (Start (cid c))"
  proof (intro ballI impI conjI)
    fix c assume c: "c \<in> set ?old" "token c \<notin> set tokens"
    show "c \<notin> set (clients s')"
      using c(2) toks by (auto simp: cl)
    have "\<exists>d\<in>set ?old. cid d = cid c \<and> token d \<notin> set tokens"
      using c by blast
    then show "count_list (calls s') (Stop (cid c)) = Suc (count_list (calls s) (Stop (cid c)))"
      by (simp add: count_stop)
    show "count_list (calls s') (Start (cid c)) = count_list (calls s) (Start (cid c))"
      using old_lt [OF c(1)] by (simp add: count_start)
  qed
  have lt: "cid c < ?n + k" if "c \<in> set cs" for c
  proof (cases "?new c")
    case True
    with that show ?thesis using new_range by blast
  next
    case False
    with that have "c \<in> set ?old" by (rule reused_old)
    then show ?thesis using old_lt by fastforce
  qed
  have cinj: "c = d" if "c \<in> set cs" "d \<in> set cs" "cid c = cid d" for c d
  proof (cases "?new c")
    case True
    note nc = this
    show ?thesis
    proof (cases "?new d")
      case True
      have "distinct (map cid (filter ?new cs))"
        by (simp only: fresh) simp
      then have "inj_on cid (set (filter ?new cs))"
        by (simp add: distinct_map)
      moreover have "c \<in> set (filter ?new cs)" "d \<in> set (filter ?new cs)"
        using that nc True by simp_all
      ultimately show ?thesis
        using that(3) by (simp add: inj_on_def)
    next
      case False
      with that have "d \<in> set ?old" by (intro reused_old)
      then have "cid d < ?n" by (rule old_lt)
      moreover have "?n \<le> cid c" using new_range [OF that(1) nc] by simp
      ultimately show ?thesis using that(3) by simp
    qed
  next
    case False
    with that have oc: "c \<in> set ?old" by (intro reused_old)
    show ?thesis
    proof (cases "?new d")
      case True
      have "?n \<le> cid d" using new_range [OF that(2) True] by simp
      moreover have "cid c < ?n" using oc by (rule old_lt)
      ultimately show ?thesis using that(3) by simp
    next
      case False
      with that have "d \<in> set ?old" by (intro reused_old)
      then show ?thesis using oc that(3) old_inj by blast
    qed
  qed
  have E: "heap_ok s'"
    using dcs cinj lt by (auto simp: heap_ok_def cl no distinct_map inj_on_def list_all_iff)
  have F: "distinct (map token (clients s'))"
    using ddes by (simp add: cl toks)
  have G: "subscription s' = map cid (clients s')" "infos s' = infos s" "onChange s' = onChange s"
    by (simp_all add: s'_def)
  from res A B U C D E F G show ?thesis
    by blast
qed


lemmas refresh_defs = refresh_def cache_of_def obtain_client_def subscribe_def stop_unused_def
  object_keys_def array_index_def index_value_def inherited_def mark_inherited_def
  ex_client_def ex_conn_def

lemma refresh_distinct_tokens_example:
  "heap_ok (ex_conn [ex_client 0 ''A'', ex_client 1 ''B''] 2 [Start 0, Start 1]) \<and>
   distinct (map token (clients (ex_conn [ex_client 0 ''A'', ex_client 1 ''B''] 2 [Start 0, Start 1]))) \<and>
   distinct [''B'', ''C''] \<and> ''B'' \<notin> set (inherited False) \<and> ''C'' \<notin> set (inherited False) \<and>
   refresh (ex_conn [ex_client 0 ''A'', ex_client 1 ''B''] 2 [Start 0, Start 1]) [''B'', ''C''] =
     (Done, ex_conn [ex_client 1 ''B'', ex_client 2 ''C''] 3 [Start 0, Start 1, Start 2, Stop 0]) \<and>
   token (ex_client 1 ''B'') \<in> set [''B'', ''C''] \<and>
   count_list [Start 0, Start 1, Start 2, Stop 0] (Start 1) = count_list [Start 0, Start 1] (Start 1) \<and>
   count_list [Start 0, Start 1, Start 2, Stop 0] (Stop 1) = count_list [Start 0, Start 1] (Stop 1) \<and>
   token (ex_client 2 ''C'') \<notin> token ` set [ex_client 0 ''A'', ex_client 1 ''B''] \<and>
   count_list [Start 0, Start 1, Start 2, Stop 0] (Start 2) = Suc (count_list [Start 0, Start 1] (Start 2)) \<and>
   token (ex_client 0 ''A'') \<notin> set [''B'', ''C''] \<and>
   count_list [Start 0, Start 1, Start 2, Stop 0] (Stop 0) = Suc (count_list [Start 0, Start 1] (Stop 0)) \<and>
   heap_ok (ex_conn [ex_client 1 ''B'', ex_client 2 ''C''] 3 [Start 0, Start 1, Start 2, Stop 0])"
  using refresh_distinct_tokens [of "ex_conn [ex_client 0 ''A'', ex_client 1 ''B''] 2 [Start 0, Start 1]"
          "[''B'', ''C'']"]
  by (simp add: refresh_defs heap_ok_def)

text \<open>
  A round for the token \<open>__proto__\<close> marks \<open>Object.prototype\<close> before it throws. The
  token \<open>1\<close>, which receives a connection before, makes \<open>refresh\<close> throw after.
\<close>

lemma refresh_marks_prototype:
  "refresh (ex_conn [] 0 []) [''__proto__''] =
     (Failed TypeError, (ex_conn [] 0 [])\<lparr>proto_marked := True\<rparr>) \<and>
   refresh (ex_conn [] 0 []) [''1''] = (Done, ex_conn [ex_client 0 ''1''] 1 [Start 0]) \<and>
   refresh ((ex_conn [] 0 [])\<lparr>proto_marked := True\<rparr>) [''1''] =
     (Failed TypeError, (ex_conn [] 0 [])\<lparr>proto_marked := True\<rparr>)"
  by (simp add: refresh_defs)

text \<open>
  C1. Every connection whose token is no longer desired is to be stopped once, and a
  token only in the desired list is to receive one new connection. The code breaks
  both when a token is listed twice. From the service without connections, the
  desired list T, T gives two connections with the token T, both started: a new
  connection is not recorded in \<open>cache\<close>, so the second round does not find the first.
  With the desired list empty next, both are dropped and only the second is
  stopped: the first, overwritten in \<open>cache\<close> by the second, receives no \<open>stop()\<close>.
\<close>

theorem refresh_duplicate_token_not_stopped:
  "refresh (ex_conn [] 0 []) [''T'', ''T''] =
     (Done, ex_conn [ex_client 0 ''T'', ex_client 1 ''T''] 2 [Start 0, Start 1]) \<and>
   refresh (ex_conn [ex_client 0 ''T'', ex_client 1 ''T''] 2 [Start 0, Start 1]) [] =
     (Done, ex_conn [] 2 [Start 0, Start 1, Stop 1]) \<and>
   ex_client 0 ''T'' \<in> set (clients (ex_conn [ex_client 0 ''T'', ex_client 1 ''T''] 2 [Start 0, Start 1])) \<and>
   token (ex_client 0 ''T'') \<notin> set [] \<and>
   count_list (calls (ex_conn [] 2 [Start 0, Start 1, Stop 1])) (Stop (cid (ex_client 0 ''T''))) = 0"
  by (simp add: refresh_defs)

end
